theory Spec2Isabelle
  imports Main
begin

section \<open>Data model\<close>

text \<open>
  The module talks to HDFS through the command line. Everything that can end a run other
  than \<^verbatim>\<open>module.exit_json\<close> is a value of \<open>error\<close>: \<^verbatim>\<open>module.fail_json(msg=...)\<close>
  (which leaves the process), the bundle's own \<^verbatim>\<open>HdfsUtilsError\<close>, and the built-in
  exceptions of Python that the code can raise.
\<close>

datatype error =
    FailJson string
  | HdfsUtilsError string
  | TypeError string
  | IndexError
  | ValueError
  | NameError string
  | AttributeError string
  | ImportError string
  | NotImplementedError

text \<open>
  \<^verbatim>\<open>module.params\<close>: the entries of \<^verbatim>\<open>argument_spec\<close> in \<^verbatim>\<open>build_module\<close> declare no
  type, so every value is a string or \<^verbatim>\<open>None\<close>; \<open>path\<close> is required, \<open>method\<close> and
  \<open>state\<close> have defaults. \<open>method\<close> is one of its two \<^verbatim>\<open>choices\<close>: the module is
  not run with any other value.
\<close>

datatype method_choice = Command | Library

record params =
  p_group :: "string option"
  p_method :: method_choice
  p_mode :: "string option"
  p_owner :: "string option"
  p_path :: string
  p_recurse :: "string option"
  p_replication :: "string option"
  p_state :: string

text \<open>
  The dict returned by \<^verbatim>\<open>stats\<close>: \<open>state\<close> is a string, \<open>owner\<close> and \<open>group\<close> are
  strings or \<^verbatim>\<open>None\<close>, \<open>replication\<close> is an integer or \<^verbatim>\<open>None\<close>.
\<close>

record status =
  s_state :: string
  s_owner :: "string option"
  s_group :: "string option"
  s_replication :: "int option"

text \<open>The three keys \<^verbatim>\<open>should_modify\<close> is called with.\<close>

datatype attr = Owner | Group | Replication

section \<open>Python built-ins used by the code\<close>

text \<open>Truth value of a string-or-None (\<^verbatim>\<open>if recurse:\<close>, \<^verbatim>\<open>owner if owner else ...\<close>).\<close>

definition truthy :: "string option \<Rightarrow> bool" where
  "truthy v = (case v of None \<Rightarrow> False | Some s \<Rightarrow> s \<noteq> [])"

text \<open>\<^verbatim>\<open>list.insert(i, x)\<close>; an index past the end appends.\<close>

definition insert_at :: "nat \<Rightarrow> 'a \<Rightarrow> 'a list \<Rightarrow> 'a list" where
  "insert_at i x xs = take i xs @ [x] @ drop i xs"

text \<open>\<^verbatim>\<open>str(n)\<close> for an integer.\<close>

definition digit_char :: "nat \<Rightarrow> char" where
  "digit_char d = char_of (48 + d)"

fun str_nat :: "nat \<Rightarrow> string" where
  "str_nat n = (if n < 10 then [digit_char n] else str_nat (n div 10) @ [digit_char (n mod 10)])"

definition str_int :: "int \<Rightarrow> string" where
  "str_int i = (if i < 0 then CHR ''-'' # str_nat (nat (- i)) else str_nat (nat i))"

text \<open>\<^verbatim>\<open>str(v)\<close> for a string-or-None and for an integer-or-None.\<close>

definition str_of_str :: "string option \<Rightarrow> string" where
  "str_of_str v = (case v of None \<Rightarrow> ''None'' | Some s \<Rightarrow> s)"

definition str_of_int :: "int option \<Rightarrow> string" where
  "str_of_int v = (case v of None \<Rightarrow> ''None'' | Some i \<Rightarrow> str_int i)"

text \<open>\<^verbatim>\<open>str.strip()\<close>: removes leading and trailing whitespace.\<close>

definition is_space :: "char \<Rightarrow> bool" where
  "is_space c = (c \<in> set [CHR '' '', CHR 0x09, CHR 0x0A, CHR 0x0B, CHR 0x0C, CHR 0x0D])"

definition strip :: "string \<Rightarrow> string" where
  "strip s = rev (dropWhile is_space (rev (dropWhile is_space s)))"

text \<open>
  \<^verbatim>\<open>str.split(sep)\<close> for a non-empty separator: the pieces between the non-overlapping
  occurrences of \<open>sep\<close>, found from the left. \<open>acc\<close> holds the current piece, reversed.
\<close>

function split_from :: "string \<Rightarrow> string \<Rightarrow> string \<Rightarrow> string list" where
  "split_from sep acc [] = [rev acc]"
| "split_from sep acc (c # cs) =
     (if sep \<noteq> [] \<and> take (length sep) (c # cs) = sep
      then rev acc # split_from sep [] (drop (length sep - 1) cs)
      else split_from sep (c # acc) cs)"
  by pat_completeness auto
termination
  by (relation "measure (\<lambda>(sep, acc, s). length s)") auto

definition split :: "string \<Rightarrow> string \<Rightarrow> string list" where
  "split s sep = split_from sep [] s"

text \<open>
  \<^verbatim>\<open>int(s)\<close> for a string: surrounding whitespace is ignored, an optional sign is followed
  by one or more decimal digits; anything else is a \<^verbatim>\<open>ValueError\<close> (\<open>None\<close> here).
\<close>

definition is_digit :: "char \<Rightarrow> bool" where
  "is_digit c = ((48::nat) \<le> of_char c \<and> (of_char c :: nat) \<le> 57)"

definition digits_value :: "string \<Rightarrow> nat" where
  "digits_value ds = foldl (\<lambda>n c. 10 * n + ((of_char c :: nat) - 48)) 0 ds"

definition int_of_digits :: "string \<Rightarrow> int option" where
  "int_of_digits ds = (if ds \<noteq> [] \<and> list_all is_digit ds then Some (int (digits_value ds)) else None)"

definition py_int :: "string \<Rightarrow> int option" where
  "py_int s =
     (case strip s of
        [] \<Rightarrow> None
      | c # cs \<Rightarrow>
          if c = CHR ''-'' then map_option uminus (int_of_digits cs)
          else if c = CHR ''+'' then int_of_digits cs
          else int_of_digits (c # cs))"

text \<open>\<^verbatim>\<open>xs[i]\<close>: raises \<^verbatim>\<open>IndexError\<close> past the end.\<close>

definition index :: "'a list \<Rightarrow> nat \<Rightarrow> error + 'a" where
  "index xs i = (if i < length xs then Inr (xs ! i) else Inl IndexError)"

section \<open>Sequencing calls that may raise\<close>

text \<open>
  A call on the context runs against the backend's state \<open>'s\<close> and either raises or
  returns. \<open>andthen\<close> is the semicolon of Python: the next statement runs only when the
  previous one returned.
\<close>

type_synonym ('a, 's) action = "'s \<Rightarrow> (error + 'a) \<times> 's"

definition ret :: "'a \<Rightarrow> ('a, 's) action" where
  "ret x s = (Inr x, s)"

definition raise :: "error \<Rightarrow> ('a, 's) action" where
  "raise e s = (Inl e, s)"

definition andthen :: "('a, 's) action \<Rightarrow> ('a \<Rightarrow> ('b, 's) action) \<Rightarrow> ('b, 's) action" where
  "andthen m f s = (case m s of (Inl e, s') \<Rightarrow> (Inl e, s') | (Inr x, s') \<Rightarrow> f x s')"

section \<open>HdfsContextCli\<close>

text \<open>
  \<^verbatim>\<open>Popen(cmd, ...)\<close> followed by \<^verbatim>\<open>communicate()\<close> and \<^verbatim>\<open>wait()\<close>: the backend is a
  parameter that takes the argument vector and its own state and gives the return code,
  standard output and standard error, and its new state.
\<close>

type_synonym 's popen = "string list \<Rightarrow> 's \<Rightarrow> (int \<times> string \<times> string) \<times> 's"

text \<open>
  An instance of a context class: one slot per public method. \<^verbatim>\<open>recurse\<close> of \<open>chmod\<close>
  and \<open>chown\<close> receives \<^verbatim>\<open>params["recurse"]\<close>, a string or \<^verbatim>\<open>None\<close>; \<^verbatim>\<open>parent\<close> of
  \<open>mkdir\<close> and \<^verbatim>\<open>recurse\<close> of \<open>remove\<close> receive booleans.
\<close>

record 's hdfs_context =
  chmod :: "string \<Rightarrow> string \<Rightarrow> string option \<Rightarrow> (unit, 's) action"
  chown :: "string \<Rightarrow> string option \<Rightarrow> string option \<Rightarrow> string option \<Rightarrow> (unit, 's) action"
  mkdir :: "string \<Rightarrow> bool \<Rightarrow> (unit, 's) action"
  remove :: "string \<Rightarrow> bool \<Rightarrow> (unit, 's) action"
  setrep :: "string \<Rightarrow> string \<Rightarrow> (unit, 's) action"
  stats :: "string \<Rightarrow> (status, 's) action"
  touch :: "string \<Rightarrow> (unit, 's) action"

text \<open>
  The tail shared by the six mutating methods: run the command, raise
  \<^verbatim>\<open>HdfsUtilsError("subprocess <name> stderr: %s" % err)\<close> on a non-zero return code
  (\<^verbatim>\<open>proc.wait() is not 0\<close>), return otherwise.
\<close>

definition run_cmd :: "'s popen \<Rightarrow> string \<Rightarrow> string list \<Rightarrow> (unit, 's) action" where
  "run_cmd popen name cmd s =
     (case popen cmd s of
        ((rc, out, err), s') \<Rightarrow>
          if rc \<noteq> 0 then (Inl (HdfsUtilsError (''subprocess '' @ name @ '' stderr: '' @ err)), s')
          else (Inr (), s'))"

definition cli_chmod :: "'s popen \<Rightarrow> string \<Rightarrow> string \<Rightarrow> string \<Rightarrow> string option \<Rightarrow> (unit, 's) action" where
  "cli_chmod popen self_cmd path mode recurse =
     (let cmd = [self_cmd, ''dfs'', ''-chmod'', mode, path];
          cmd = (if truthy recurse then insert_at 3 ''-R'' cmd else cmd)
      in run_cmd popen ''chmod'' cmd)"

text \<open>
  \<^verbatim>\<open>target = owner if owner else "" + ":" + group if group else ""\<close>. A conditional
  expression binds weaker than \<open>+\<close> and nests to the right, so this is
  \<^verbatim>\<open>owner if owner else (("" + ":" + group) if group else "")\<close>.
\<close>

definition chown_target :: "string option \<Rightarrow> string option \<Rightarrow> string" where
  "chown_target owner grp =
     (if truthy owner then the owner
      else if truthy grp then '''' @ '':'' @ the grp
      else '''')"

definition cli_chown :: "'s popen \<Rightarrow> string \<Rightarrow> string \<Rightarrow> string option \<Rightarrow> string option \<Rightarrow> string option \<Rightarrow> (unit, 's) action" where
  "cli_chown popen self_cmd path owner grp recurse =
     (let target = chown_target owner grp;
          cmd = [self_cmd, ''dfs'', ''-chown'', target, path];
          cmd = (if truthy recurse then insert_at 3 ''-R'' cmd else cmd)
      in run_cmd popen ''chown'' cmd)"

definition cli_mkdir :: "'s popen \<Rightarrow> string \<Rightarrow> string \<Rightarrow> bool \<Rightarrow> (unit, 's) action" where
  "cli_mkdir popen self_cmd path parent =
     (let cmd = [self_cmd, ''dfs'', ''-mkdir'', path];
          cmd = (if parent then insert_at 3 ''-p'' cmd else cmd)
      in run_cmd popen ''mkdir'' cmd)"

definition cli_remove :: "'s popen \<Rightarrow> string \<Rightarrow> string \<Rightarrow> bool \<Rightarrow> (unit, 's) action" where
  "cli_remove popen self_cmd path recurse =
     (let cmd = [self_cmd, ''dfs'', ''-rm'', path];
          cmd = (if recurse then insert_at 3 ''-r'' cmd else cmd)
      in run_cmd popen ''rm'' cmd)"

definition cli_setrep :: "'s popen \<Rightarrow> string \<Rightarrow> string \<Rightarrow> string \<Rightarrow> (unit, 's) action" where
  "cli_setrep popen self_cmd path factor =
     run_cmd popen ''setrep'' [self_cmd, ''dfs'', ''-setrep'', factor, path]"

definition cli_touch :: "'s popen \<Rightarrow> string \<Rightarrow> string \<Rightarrow> (unit, 's) action" where
  "cli_touch popen self_cmd path =
     run_cmd popen ''touchz'' [self_cmd, ''dfs'', ''-touchz'', path]"

text \<open>
  \<^verbatim>\<open>stats\<close>. The dict starts as the absent record and is returned as it is when the
  return code is not zero. Otherwise the output is stripped and split at \<^verbatim>\<open>[SEP]\<close>, the
  loop over \<^verbatim>\<open>enumerate(out_order)\<close> reads \<^verbatim>\<open>out[0]\<close> to \<^verbatim>\<open>out[3]\<close> in turn
  (\<^verbatim>\<open>IndexError\<close> at the first one that is missing), \<^verbatim>\<open>"regular file"\<close> becomes
  \<^verbatim>\<open>"file"\<close>, and \<^verbatim>\<open>int\<close> converts the replication (\<^verbatim>\<open>ValueError\<close> when it is not
  an integer literal).
\<close>

definition absent_status :: status where
  "absent_status = \<lparr>s_state = ''absent'', s_owner = None, s_group = None, s_replication = None\<rparr>"

definition parse_stat :: "string \<Rightarrow> error + status" where
  "parse_stat out =
     (let out = split (strip out) ''[SEP]'' in
      case index out 0 of Inl e \<Rightarrow> Inl e | Inr v_state \<Rightarrow>
      case index out 1 of Inl e \<Rightarrow> Inl e | Inr v_owner \<Rightarrow>
      case index out 2 of Inl e \<Rightarrow> Inl e | Inr v_group \<Rightarrow>
      case index out 3 of Inl e \<Rightarrow> Inl e | Inr v_replication \<Rightarrow>
      let v_state = (if v_state = ''regular file'' then ''file'' else v_state) in
      case py_int v_replication of
        None \<Rightarrow> Inl ValueError
      | Some r \<Rightarrow> Inr \<lparr>s_state = v_state, s_owner = Some v_owner, s_group = Some v_group,
                       s_replication = Some r\<rparr>)"

definition cli_stats :: "'s popen \<Rightarrow> string \<Rightarrow> string \<Rightarrow> (status, 's) action" where
  "cli_stats popen self_cmd path s =
     (let cmd = [self_cmd, ''dfs'', ''-stat'', ''%F[SEP]%u[SEP]%g[SEP]%r'', path] in
      case popen cmd s of
        ((rc, out, err), s') \<Rightarrow>
          if rc \<noteq> 0 then (Inr absent_status, s')
          else (parse_stat out, s'))"

text \<open>\<^verbatim>\<open>HdfsContextCli(command)\<close>: the instance with its seven methods.\<close>

definition HdfsContextCli :: "'s popen \<Rightarrow> string \<Rightarrow> 's hdfs_context" where
  "HdfsContextCli popen command =
     \<lparr>chmod = cli_chmod popen command,
      chown = cli_chown popen command,
      mkdir = cli_mkdir popen command,
      remove = cli_remove popen command,
      setrep = cli_setrep popen command,
      stats = cli_stats popen command,
      touch = cli_touch popen command\<rparr>"

section \<open>HdfsCheckMode\<close>

text \<open>
  The body of \<^verbatim>\<open>HdfsCheckMode.__init__\<close> replaces six method slots of \<open>inst\<close> by
  local functions that ignore their arguments and return at once (\<^verbatim>\<open>setattr\<close>); the
  slot \<open>stats\<close> is left alone. Both classes that pass the \<^verbatim>\<open>isinstance\<close> test are
  contexts, which is the type of \<open>inst\<close> here.
\<close>

definition HdfsCheckMode_patched :: "'s hdfs_context \<Rightarrow> 's hdfs_context" where
  "HdfsCheckMode_patched inst =
     inst\<lparr>chmod := (\<lambda>path mode recurse. ret ()),
          chown := (\<lambda>path owner grp recurse. ret ()),
          mkdir := (\<lambda>path parent. ret ()),
          remove := (\<lambda>path recurse. ret ()),
          setrep := (\<lambda>path factor. ret ()),
          touch := (\<lambda>path. ret ())\<rparr>"

text \<open>
  The last statement of \<^verbatim>\<open>__init__\<close> is \<^verbatim>\<open>return (inst)\<close>: the method returns the
  patched instance (\<open>None\<close> below stands for Python's \<^verbatim>\<open>None\<close>).
\<close>

definition HdfsCheckMode_init :: "'s hdfs_context \<Rightarrow> 's hdfs_context option" where
  "HdfsCheckMode_init inst = Some (HdfsCheckMode_patched inst)"

text \<open>
  Calling a class creates the instance \<open>self\<close>, runs \<^verbatim>\<open>__init__\<close> on it and yields
  \<open>self\<close>; Python raises \<^verbatim>\<open>TypeError\<close> when \<^verbatim>\<open>__init__\<close> returns anything but
  \<^verbatim>\<open>None\<close>. An instance of \<^verbatim>\<open>HdfsCheckMode\<close> has no attribute of its own, so it is
  the unit value.
\<close>

definition instantiate :: "'r option \<Rightarrow> 'i \<Rightarrow> error + 'i" where
  "instantiate init_result self =
     (case init_result of
        None \<Rightarrow> Inr self
      | Some r \<Rightarrow> Inl (TypeError ''__init__() should return None''))"

definition HdfsCheckMode :: "'s hdfs_context \<Rightarrow> error + unit" where
  "HdfsCheckMode inst = instantiate (HdfsCheckMode_init inst) ()"

section \<open>The module: resolv\_states, should\_modify, main\<close>

definition fail_json :: "string \<Rightarrow> ('a, 's) action" where
  "fail_json msg = raise (FailJson msg)"

text \<open>\<^verbatim>\<open>try: ... except HdfsUtilsError as e: handler\<close>; other exceptions pass through.\<close>

definition except_HdfsUtilsError :: "('a, 's) action \<Rightarrow> (string \<Rightarrow> ('a, 's) action) \<Rightarrow> ('a, 's) action" where
  "except_HdfsUtilsError body handler s =
     (case body s of
        (Inl (HdfsUtilsError msg), s') \<Rightarrow> handler msg s'
      | r \<Rightarrow> r)"

definition quote :: string where
  "quote = [CHR 0x27]"

definition resolv_states :: "params \<Rightarrow> 's hdfs_context \<Rightarrow> status \<Rightarrow> (bool, 's) action" where
  "resolv_states params context status =
     (let old = s_state status; new = p_state params in
      andthen
        (except_HdfsUtilsError
          (if old = ''absent'' \<and> new = ''file'' then
             fail_json (''no such file, to create new file use state 'touch' instead of 'file'' @ quote)
           else if old = ''absent'' \<and> new = ''directory'' then
             mkdir context (p_path params) True
           else if new = ''touch'' \<and> old \<in> set [''absent'', ''file''] then
             touch context (p_path params)
           else if new = ''absent'' \<and> old = ''file'' then
             remove context (p_path params) False
           else if new = ''absent'' \<and> old = ''directory'' then
             remove context (p_path params) True
           else
             fail_json (''unsupported state convert '' @ quote @ old @ quote @ '' -> ''
                        @ quote @ new @ quote))
          (\<lambda>e. fail_json e))
        (\<lambda>_. ret True))"

text \<open>\<^verbatim>\<open>params[value]\<close> and \<^verbatim>\<open>str(status[value])\<close> for the three keys.\<close>

definition params_item :: "params \<Rightarrow> attr \<Rightarrow> string option" where
  "params_item params value =
     (case value of Owner \<Rightarrow> p_owner params | Group \<Rightarrow> p_group params
      | Replication \<Rightarrow> p_replication params)"

definition status_str :: "status \<Rightarrow> attr \<Rightarrow> string" where
  "status_str status value =
     (case value of Owner \<Rightarrow> str_of_str (s_owner status)
      | Group \<Rightarrow> str_of_str (s_group status)
      | Replication \<Rightarrow> str_of_int (s_replication status))"

definition should_modify :: "status \<Rightarrow> params \<Rightarrow> attr \<Rightarrow> bool" where
  "should_modify status params value =
     (if params_item params value = None then False
      else if p_state params = ''touch'' then True
      else if status_str status value = str_of_str (params_item params value) then False
      else True)"

text \<open>
  Lines 192 to 216 of \<^verbatim>\<open>main\<close>, from \<^verbatim>\<open>status = context.stats(...)\<close> to the last
  \<^verbatim>\<open>module.exit_json\<close>, with the context as a parameter. The result \<open>Inr changed\<close> is
  \<^verbatim>\<open>module.exit_json(changed=changed)\<close>. The local variable \<open>changed\<close> is rebound at
  every step.
\<close>

definition reconcile :: "params \<Rightarrow> 's hdfs_context \<Rightarrow> (bool, 's) action" where
  "reconcile params context =
     andthen (stats context (p_path params)) (\<lambda>status.
     andthen (if s_state status \<noteq> p_state params
              then andthen (resolv_states params context status) (\<lambda>_. ret True)
              else ret False) (\<lambda>changed.
     if p_state params = ''absent'' then ret changed
     else
     andthen (if should_modify status params Owner
              then andthen (chown context (p_path params) (p_owner params) None (p_recurse params))
                     (\<lambda>_. ret True)
              else ret changed) (\<lambda>changed.
     andthen (if should_modify status params Group
              then andthen (chown context (p_path params) None (p_group params) (p_recurse params))
                     (\<lambda>_. ret True)
              else ret changed) (\<lambda>changed.
     andthen (if should_modify status params Replication
              then andthen (setrep context (p_path params) (the (p_replication params)))
                     (\<lambda>_. ret True)
              else ret changed) (\<lambda>changed.
     andthen (if p_mode params \<noteq> None
              then andthen (chmod context (p_path params) (the (p_mode params)) (p_recurse params))
                     (\<lambda>_. ret True)
              else ret changed) (\<lambda>changed.
     ret changed))))))"

text \<open>
  Lines 189 to 216 of \<^verbatim>\<open>main\<close>, with the context as a parameter: in check mode the
  name \<open>context\<close> is rebound to the value of \<^verbatim>\<open>HdfsCheckMode(context)\<close>, an
  instance with no \<open>stats\<close>, and the lines above follow. \<open>check_mode\<close> is
  \<^verbatim>\<open>module.check_mode\<close>.
\<close>

definition run_context :: "params \<Rightarrow> bool \<Rightarrow> 's hdfs_context \<Rightarrow> (bool, 's) action" where
  "run_context params check_mode context =
     (if check_mode then
        (case HdfsCheckMode context of
           Inl e \<Rightarrow> raise e
         | Inr self \<Rightarrow> raise (AttributeError ''stats''))
      else reconcile params context)"

text \<open>
  \<^verbatim>\<open>main\<close>. The file imports \<^verbatim>\<open>HdfsUtilsError\<close> and \<^verbatim>\<open>HdfsCheckMode\<close> only, so
  the name \<^verbatim>\<open>HdfsContextCli\<close> at line 185 is not bound and reading it raises
  \<^verbatim>\<open>NameError\<close>; the statements after it are not reached. With the method
  \<open>library\<close> the module fails with \<^verbatim>\<open>fail_json\<close>.
\<close>

definition main :: "params \<Rightarrow> bool \<Rightarrow> (bool, 's) action" where
  "main params check_mode =
     (case p_method params of
        Command \<Rightarrow>
          andthen (raise (NameError ''HdfsContextCli''))
            (\<lambda>context. run_context params check_mode context)
      | Library \<Rightarrow> fail_json ''Not yet implemented'')"

section \<open>Observing the calls made on a context\<close>

text \<open>
  To count calls, a context is wrapped so that every method appends its name and
  arguments to a log kept beside the backend's state, and then runs the wrapped method.
\<close>

datatype call =
    Stats string
  | Mkdir string bool
  | Remove string bool
  | Touch string
  | Chown string "string option" "string option" "string option"
  | Setrep string string
  | Chmod string string "string option"

definition logged :: "call \<Rightarrow> ('a, 's) action \<Rightarrow> ('a, 's \<times> call list) action" where
  "logged c m = (\<lambda>(s, log). case m s of (r, s') \<Rightarrow> (r, (s', log @ [c])))"

definition spy :: "'s hdfs_context \<Rightarrow> ('s \<times> call list) hdfs_context" where
  "spy context =
     \<lparr>chmod = (\<lambda>path mode recurse.
                 logged (Chmod path mode recurse) (chmod context path mode recurse)),
      chown = (\<lambda>path owner grp recurse.
                 logged (Chown path owner grp recurse) (chown context path owner grp recurse)),
      mkdir = (\<lambda>path parent. logged (Mkdir path parent) (mkdir context path parent)),
      remove = (\<lambda>path recurse. logged (Remove path recurse) (remove context path recurse)),
      setrep = (\<lambda>path factor. logged (Setrep path factor) (setrep context path factor)),
      stats = (\<lambda>path. logged (Stats path) (stats context path)),
      touch = (\<lambda>path. logged (Touch path) (touch context path))\<rparr>"

text \<open>
  The wrapper only observes: an action on the wrapped state and log is the same run as an
  action on the plain state when, from every state and log, both give the same result
  and the same backend state.
\<close>

definition same_run :: "('a, 's \<times> call list) action \<Rightarrow> ('a, 's) action \<Rightarrow> bool" where
  "same_run M m \<longleftrightarrow>
     (\<forall>s l. fst (M (s, l)) = fst (m s) \<and> fst (snd (M (s, l))) = snd (m s))"

fun is_chown :: "call \<Rightarrow> bool" where
  "is_chown (Chown p owner grp r) = True"
| "is_chown c = False"

fun is_chmod :: "call \<Rightarrow> bool" where
  "is_chmod (Chmod p m r) = True"
| "is_chmod c = False"

fun is_attribute_call :: "call \<Rightarrow> bool" where
  "is_attribute_call (Chown p owner grp r) = True"
| "is_attribute_call (Setrep p f) = True"
| "is_attribute_call (Chmod p m r) = True"
| "is_attribute_call c = False"

text \<open>
  The attribute calls of lines 199 to 214, in their order, for the status that \<open>stats\<close>
  returned, and the value of \<open>changed\<close> at the last line.
\<close>

definition attribute_calls :: "status \<Rightarrow> params \<Rightarrow> call list" where
  "attribute_calls status params =
     (if should_modify status params Owner
      then [Chown (p_path params) (p_owner params) None (p_recurse params)] else [])
     @ (if should_modify status params Group
        then [Chown (p_path params) None (p_group params) (p_recurse params)] else [])
     @ (if should_modify status params Replication
        then [Setrep (p_path params) (the (p_replication params))] else [])
     @ (if p_mode params \<noteq> None
        then [Chmod (p_path params) (the (p_mode params)) (p_recurse params)] else [])"

definition would_change :: "status \<Rightarrow> params \<Rightarrow> bool" where
  "would_change status params =
     (s_state status \<noteq> p_state params \<or>
      (p_state params \<noteq> ''absent'' \<and>
       (should_modify status params Owner \<or> should_modify status params Group \<or>
        should_modify status params Replication \<or> p_mode params \<noteq> None)))"

section \<open>A small backend to run the code on\<close>

text \<open>
  The theorems below hold for every backend. To apply them to concrete inputs, here is a
  filesystem kept as a function from paths to status records (a path that does not exist
  has the absent record), with the seven operations acting on one path.
\<close>

type_synonym fs = "string \<Rightarrow> status"

definition no_such :: "string \<Rightarrow> error" where
  "no_such path = HdfsUtilsError (path @ '': No such file or directory'')"

definition fs_context :: "fs hdfs_context" where
  "fs_context =
     \<lparr>chmod = (\<lambda>path mode recurse fs.
         if s_state (fs path) = ''absent'' then (Inl (no_such path), fs) else (Inr (), fs)),
      chown = (\<lambda>path owner grp recurse fs.
         if s_state (fs path) = ''absent'' then (Inl (no_such path), fs)
         else (Inr (), fs(path := (fs path)
                 \<lparr>s_owner := (case owner of None \<Rightarrow> s_owner (fs path) | Some v \<Rightarrow> Some v),
                  s_group := (case grp of None \<Rightarrow> s_group (fs path) | Some v \<Rightarrow> Some v)\<rparr>))),
      mkdir = (\<lambda>path parent fs.
         if s_state (fs path) \<noteq> ''absent''
           then (Inl (HdfsUtilsError (path @ '': File exists'')), fs)
         else (Inr (), fs(path := \<lparr>s_state = ''directory'', s_owner = Some ''hdfs'',
                 s_group = Some ''supergroup'', s_replication = Some 0\<rparr>))),
      remove = (\<lambda>path recurse fs.
         if s_state (fs path) = ''absent'' then (Inl (no_such path), fs)
         else if s_state (fs path) = ''directory'' \<and> \<not> recurse
           then (Inl (HdfsUtilsError (path @ '': Is a directory'')), fs)
         else (Inr (), fs(path := absent_status))),
      setrep = (\<lambda>path factor fs.
         if s_state (fs path) = ''absent'' then (Inl (no_such path), fs)
         else (case py_int factor of
                 None \<Rightarrow> (Inl (HdfsUtilsError (factor @ '': not a number'')), fs)
               | Some n \<Rightarrow> (Inr (), fs(path := (fs path)\<lparr>s_replication := Some n\<rparr>)))),
      stats = (\<lambda>path fs.
         (Inr (if s_state (fs path) = ''absent'' then absent_status else fs path), fs)),
      touch = (\<lambda>path fs.
         if s_state (fs path) = ''absent''
           then (Inr (), fs(path := \<lparr>s_state = ''file'', s_owner = Some ''hdfs'',
                   s_group = Some ''supergroup'', s_replication = Some 3\<rparr>))
         else if s_state (fs path) = ''file'' then (Inr (), fs)
         else (Inl (HdfsUtilsError (path @ '': Is a directory'')), fs))\<rparr>"

definition empty_fs :: fs where
  "empty_fs = (\<lambda>path. absent_status)"

definition folder_fs :: fs where
  "folder_fs = empty_fs(''/tmp/myfolder'' :=
     \<lparr>s_state = ''directory'', s_owner = Some ''hdfs'', s_group = Some ''supergroup'',
      s_replication = Some 0\<rparr>)"

text \<open>
  The same at the level of the command line, for one kind of object: the state is the
  list of directories that exist; \<^verbatim>\<open>-stat\<close> prints the four fields, \<^verbatim>\<open>-mkdir -p\<close>
  creates, \<^verbatim>\<open>-chown\<close> and \<^verbatim>\<open>-chmod\<close> succeed on a directory that exists, every
  other command is refused.
\<close>

definition dir_popen :: "string list popen" where
  "dir_popen cmd dirs =
     (case cmd of
        [c, d, op, fmt, path] \<Rightarrow>
          if op = ''-stat'' then
            (if path \<in> set dirs
             then ((0, ''directory[SEP]hdfs[SEP]supergroup[SEP]0'' @ [CHR 0x0A], []), dirs)
             else ((1, [], ''stat: No such file or directory''), dirs))
          else if op = ''-mkdir'' \<and> fmt = ''-p'' then ((0, [], []), path # dirs)
          else if op \<in> set [''-chown'', ''-chmod''] \<and> path \<in> set dirs then ((0, [], []), dirs)
          else ((1, [], ''refused''), dirs)
      | _ \<Rightarrow> ((1, [], ''refused''), dirs))"

text \<open>A backend that answers every command with the same return code and output.\<close>

definition const_popen :: "int \<times> string \<times> string \<Rightarrow> unit popen" where
  "const_popen answer cmd s = (answer, s)"

text \<open>
  What \<^verbatim>\<open>hdfs dfs -stat "%F[SEP]%u[SEP]%g[SEP]%r"\<close> prints for one regular file, and
  for a path with a wildcard that matches a directory and a file (one line each).
\<close>

definition stat_of_file :: string where
  "stat_of_file = ''regular file[SEP]hdfs[SEP]supergroup[SEP]3'' @ [CHR 0x0A]"

definition stat_of_two :: string where
  "stat_of_two = ''directory[SEP]hdfs[SEP]supergroup[SEP]0'' @ [CHR 0x0A]
                 @ ''regular file[SEP]hdfs[SEP]supergroup[SEP]3'' @ [CHR 0x0A]"

text \<open>The first entry of the module's \<^verbatim>\<open>EXAMPLES\<close>, with the defaults filled in.\<close>

definition create_folder :: params where
  "create_folder =
     \<lparr>p_group = Some ''mygroup'', p_method = Command, p_mode = Some ''0755'',
      p_owner = Some ''myuser'', p_path = ''/tmp/myfolder'', p_recurse = None,
      p_replication = None, p_state = ''directory''\<rparr>"

text \<open>
  The second entry, and the third with an owner added (\<^verbatim>\<open>touch\<close> re-applies the
  attributes that are set).
\<close>

definition delete_folder :: params where
  "delete_folder =
     \<lparr>p_group = None, p_method = Command, p_mode = None, p_owner = None,
      p_path = ''/tmp/myfolder'', p_recurse = None, p_replication = None,
      p_state = ''absent''\<rparr>"

definition create_file :: params where
  "create_file =
     \<lparr>p_group = None, p_method = Command, p_mode = None, p_owner = Some ''myuser'',
      p_path = ''/tmp/myfile'', p_recurse = None, p_replication = None,
      p_state = ''touch''\<rparr>"

section \<open>A backend whose status reflects the calls\<close>




definition none_folder :: params where
  "none_folder = create_folder\<lparr>p_mode := None, p_group := None, p_owner := Some ''None''\<rparr>"

definition padded_file :: params where
  "padded_file =
     \<lparr>p_group = None, p_method = Command, p_mode = None, p_owner = None,
      p_path = ''/tmp/myfile'', p_recurse = None, p_replication = Some ''03'',
      p_state = ''file''\<rparr>"

definition file_fs :: fs where
  "file_fs = empty_fs(''/tmp/myfile'' :=
     \<lparr>s_state = ''file'', s_owner = Some ''hdfs'', s_group = Some ''supergroup'',
      s_replication = Some 3\<rparr>)"

section \<open>Evaluating the file HdfsUtils.py\<close>

text \<open>
  Importing a module runs its top-level statements in order. A \<^verbatim>\<open>def\<close> binds a name
  without running the body; a \<^verbatim>\<open>class\<close> statement runs the statements of its body in a
  fresh namespace and then binds the class name; a \<^verbatim>\<open>raise\<close> ends the evaluation. The
  namespace is the list of the names bound so far.
\<close>

datatype stmt =
    Docstring
  | Pass
  | Import "string list"
  | FunctionDef string
  | Raise error
  | ClassDef string "stmt list"

fun exec_stmt :: "stmt \<Rightarrow> string list \<Rightarrow> error + string list"
  and exec_block :: "stmt list \<Rightarrow> string list \<Rightarrow> error + string list" where
  "exec_stmt Docstring ns = Inr ns"
| "exec_stmt Pass ns = Inr ns"
| "exec_stmt (Import names) ns = Inr (names @ ns)"
| "exec_stmt (FunctionDef name) ns = Inr (name # ns)"
| "exec_stmt (Raise e) ns = Inl e"
| "exec_stmt (ClassDef name body) ns =
     (case exec_block body [] of Inl e \<Rightarrow> Inl e | Inr members \<Rightarrow> Inr (name # ns))"
| "exec_block [] ns = Inr ns"
| "exec_block (st # sts) ns =
     (case exec_stmt st ns of Inl e \<Rightarrow> Inl e | Inr ns' \<Rightarrow> exec_block sts ns')"

text \<open>The top-level statements of \<^verbatim>\<open>HdfsUtils.py\<close>, in the order of the file.\<close>

definition HdfsUtils_py :: "stmt list" where
  "HdfsUtils_py =
     [Docstring,
      ClassDef ''HdfsUtilsError'' [Pass],
      Docstring,
      Import [''re''],
      Import [''Popen'', ''PIPE''],
      ClassDef ''HdfsContextCli''
        [FunctionDef ''__init__'', FunctionDef ''chmod'', FunctionDef ''chown'',
         FunctionDef ''mkdir'', FunctionDef ''remove'', FunctionDef ''setrep'',
         FunctionDef ''stats'', FunctionDef ''touch''],
      Docstring,
      ClassDef ''HdfsContextLib'' [Raise NotImplementedError],
      Docstring,
      ClassDef ''HdfsCheckMode'' [FunctionDef ''__init__'']]"

text \<open>
  \<^verbatim>\<open>import\<close> of a file, and \<^verbatim>\<open>from <file> import <name>\<close>: the name is looked up in
  the namespace that the evaluation leaves, when it leaves one.
\<close>

definition import_module :: "stmt list \<Rightarrow> error + string list" where
  "import_module file = exec_block file []"

definition from_import :: "stmt list \<Rightarrow> string \<Rightarrow> error + string" where
  "from_import file name =
     (case import_module file of
        Inl e \<Rightarrow> Inl e
      | Inr ns \<Rightarrow> if name \<in> set ns then Inr name else Inl (ImportError name))"

section \<open>Properties of HdfsContextCli\<close>

lemma length_less_4:
  "length xs < 4 \<longleftrightarrow>
     (xs = [] \<or> (\<exists>a. xs = [a]) \<or> (\<exists>a b. xs = [a, b]) \<or> (\<exists>a b c. xs = [a, b, c]))"
  by (cases xs; simp; cases "tl xs"; simp; cases "tl (tl xs)"; simp;
      cases "tl (tl (tl xs))"; simp)

lemma parse_stat_short:
  "length (split (strip out) ''[SEP]'') < 4 \<Longrightarrow> parse_stat out = Inl IndexError"
  by (auto simp: length_less_4 parse_stat_def index_def Let_def)

lemma parse_stat_fields:
  "split (strip out) ''[SEP]'' = f # u # g # r # rest \<Longrightarrow>
   parse_stat out =
     (case py_int r of
        None \<Rightarrow> Inl ValueError
      | Some n \<Rightarrow> Inr \<lparr>s_state = (if f = ''regular file'' then ''file'' else f),
           s_owner = Some u, s_group = Some g, s_replication = Some n\<rparr>)"
  by (simp add: parse_stat_def index_def Let_def split: option.splits)

text \<open>
  Claim C7, as the code has it. \<^verbatim>\<open>stats\<close> never raises on a missing path: a non-zero
  return code gives the record with state \<open>absent\<close> and owner, group and replication
  \<^verbatim>\<open>None\<close>. With return code zero the result depends on the output: when it has at least
  four fields between \<^verbatim>\<open>[SEP]\<close> and the fourth is an integer literal, the record has all
  four fields, with \<^verbatim>\<open>regular file\<close> turned into \<^verbatim>\<open>file\<close> and the replication an
  integer; with fewer than four fields \<^verbatim>\<open>stats\<close> raises \<^verbatim>\<open>IndexError\<close>, and with a
  fourth field that is not an integer literal it raises \<^verbatim>\<open>ValueError\<close>.
\<close>

theorem stats_result:
  assumes "popen [command, ''dfs'', ''-stat'', ''%F[SEP]%u[SEP]%g[SEP]%r'', path] s
           = ((rc, out, err), s')"
  shows "(rc \<noteq> 0 \<longrightarrow> cli_stats popen command path s = (Inr absent_status, s')) \<and>
    (rc = 0 \<longrightarrow>
      (length (split (strip out) ''[SEP]'') < 4 \<longrightarrow>
         cli_stats popen command path s = (Inl IndexError, s')) \<and>
      (\<forall>f u g r rest. split (strip out) ''[SEP]'' = f # u # g # r # rest \<longrightarrow>
         cli_stats popen command path s =
           (case py_int r of
              None \<Rightarrow> Inl ValueError
            | Some n \<Rightarrow> Inr \<lparr>s_state = (if f = ''regular file'' then ''file'' else f),
                 s_owner = Some u, s_group = Some g, s_replication = Some n\<rparr>, s')))"
  using assms by (simp add: cli_stats_def Let_def parse_stat_short parse_stat_fields)

theorem stats_result_witness:
  "cli_stats (const_popen (0, stat_of_file, [])) ''/bin/hdfs'' ''/tmp/myfile'' ()
     = (Inr \<lparr>s_state = ''file'', s_owner = Some ''hdfs'', s_group = Some ''supergroup'',
             s_replication = Some 3\<rparr>, ()) \<and>
   cli_stats (const_popen (1, [], ''stat: No such file or directory'')) ''/bin/hdfs''
       ''/tmp/myfile'' ()
     = (Inr absent_status, ())"
proof -
  have fields: "split (strip stat_of_file) ''[SEP]'' = [''regular file'', ''hdfs'', ''supergroup'', ''3'']"
    by code_simp
  have three: "py_int ''3'' = Some 3"
    by code_simp
  have found: "const_popen (0, stat_of_file, [])
      [''/bin/hdfs'', ''dfs'', ''-stat'', ''%F[SEP]%u[SEP]%g[SEP]%r'', ''/tmp/myfile''] ()
      = ((0, stat_of_file, []), ())"
    by (simp add: const_popen_def)
  have missing: "const_popen (1, [], ''stat: No such file or directory'')
      [''/bin/hdfs'', ''dfs'', ''-stat'', ''%F[SEP]%u[SEP]%g[SEP]%r'', ''/tmp/myfile''] ()
      = ((1, [], ''stat: No such file or directory''), ())"
    by (simp add: const_popen_def)
  show ?thesis
    using stats_result [where popen = "const_popen (0, stat_of_file, [])"
        and command = "''/bin/hdfs''" and path = "''/tmp/myfile''" and s = "()", OF found]
      stats_result [where popen = "const_popen (1, [], ''stat: No such file or directory'')"
        and command = "''/bin/hdfs''" and path = "''/tmp/myfile''" and s = "()", OF missing]
      fields three
    by simp
qed

text \<open>
  Claim C7 as it is written says that a successful query always gives a record with four
  fields. It does not: the command succeeds on a path with a wildcard that matches two
  objects, prints two lines, and the fourth field is then not an integer literal.
\<close>

theorem stats_success_counterexample:
  "cli_stats (const_popen (0, stat_of_two, [])) ''/bin/hdfs'' ''/data/*'' ()
     = (Inl ValueError, ())"
  by code_simp

text \<open>
  Claim C10. When \<^verbatim>\<open>chown\<close> is called with an owner and a group that are both
  non-empty strings, the target put into the command is the owner alone: the command is
  \<^verbatim>\<open>[cmd, "dfs", "-chown", owner, path]\<close>, with \<^verbatim>\<open>-R\<close> inserted before the target
  when \<open>recurse\<close> is true, and the target is not \<^verbatim>\<open>owner:group\<close>. The group enters the
  target, as \<^verbatim>\<open>":" + group\<close>, only when the owner is unset.
\<close>

theorem chown_target_owner_only:
  "owner \<noteq> [] \<Longrightarrow> grp \<noteq> [] \<Longrightarrow>
   chown_target (Some owner) (Some grp) = owner \<and>
   chown_target (Some owner) (Some grp) \<noteq> owner @ '':'' @ grp \<and>
   chown_target None (Some grp) = '':'' @ grp \<and>
   cli_chown popen command path (Some owner) (Some grp) recurse =
     run_cmd popen ''chown''
       ([command, ''dfs'', ''-chown''] @ (if truthy recurse then [''-R''] else [])
        @ [owner, path])"
  by (simp add: chown_target_def truthy_def cli_chown_def insert_at_def Let_def)

theorem chown_target_owner_only_witness:
  "''myuser'' \<noteq> [] \<and> ''mygroup'' \<noteq> [] \<and>
   chown_target (Some ''myuser'') (Some ''mygroup'') = ''myuser'' \<and>
   fst (cli_chown (const_popen (0, [], [])) ''/bin/hdfs'' ''/tmp/myfolder''
          (Some ''myuser'') (Some ''mygroup'') None ()) = Inr ()"
  using chown_target_owner_only [of "''myuser''" "''mygroup''" "const_popen (0, [], [])"
      "''/bin/hdfs''" "''/tmp/myfolder''" None]
  by (simp add: run_cmd_def const_popen_def truthy_def)

section \<open>Properties of the module\<close>

subsection \<open>Auxiliary facts\<close>

lemma spy_simps:
  "chmod (spy ctx) p m r = logged (Chmod p m r) (chmod ctx p m r)"
  "chown (spy ctx) p ow g r = logged (Chown p ow g r) (chown ctx p ow g r)"
  "mkdir (spy ctx) p b = logged (Mkdir p b) (mkdir ctx p b)"
  "remove (spy ctx) p b = logged (Remove p b) (remove ctx p b)"
  "setrep (spy ctx) p f = logged (Setrep p f) (setrep ctx p f)"
  "stats (spy ctx) p = logged (Stats p) (stats ctx p)"
  "touch (spy ctx) p = logged (Touch p) (touch ctx p)"
  by (simp_all add: spy_def)

lemma logged_apply: "logged c m (s, l) = (fst (m s), (snd (m s), l @ [c]))"
  by (simp add: logged_def split: prod.splits)

lemma guarded_call_snd:
  "snd (andthen (except_HdfsUtilsError m (\<lambda>e. fail_json e)) (\<lambda>_. ret True) s) = snd (m s)"
proof (cases "m s")
  case (Pair r s')
  then show ?thesis
    by (cases r; simp add: andthen_def except_HdfsUtilsError_def fail_json_def raise_def ret_def split: error.splits)
qed

lemma guarded_fail:
  "andthen (except_HdfsUtilsError (fail_json msg) (\<lambda>e. fail_json e)) (\<lambda>_. ret True) s = (Inl (FailJson msg), s)"
  by (simp add: andthen_def except_HdfsUtilsError_def fail_json_def raise_def)

lemma guarded_call_Inr:
  "andthen (except_HdfsUtilsError m (\<lambda>e. fail_json e)) (\<lambda>_. ret True) s = (Inr b, s')
   \<longleftrightarrow> b \<and> m s = (Inr (), s')"
proof (cases "m s")
  case (Pair r s1)
  then show ?thesis
    by (cases r; auto simp add: andthen_def except_HdfsUtilsError_def fail_json_def raise_def ret_def split: error.splits)
qed

text \<open>The six branches of resolv_states.\<close>

lemma resolv_states_cases:
  obtains
    (no_file) "s_state status = ''absent''" "p_state params = ''file''"
      "\<And>s. resolv_states params ctx status s = 
         (Inl (FailJson (''no such file, to create new file use state 'touch' instead of 'file'' @ quote)), s)"
  | (mkdir) "s_state status = ''absent''" "p_state params = ''directory''"
      "resolv_states params ctx status =
         andthen (except_HdfsUtilsError (mkdir ctx (p_path params) True) (\<lambda>e. fail_json e)) (\<lambda>_. ret True)"
  | (touch) "s_state status \<in> {''absent'', ''file''}" "p_state params = ''touch''"
      "resolv_states params ctx status =
         andthen (except_HdfsUtilsError (touch ctx (p_path params)) (\<lambda>e. fail_json e)) (\<lambda>_. ret True)"
  | (remove_file) "s_state status = ''file''" "p_state params = ''absent''"
      "resolv_states params ctx status =
         andthen (except_HdfsUtilsError (remove ctx (p_path params) False) (\<lambda>e. fail_json e)) (\<lambda>_. ret True)"
  | (remove_directory) "s_state status = ''directory''" "p_state params = ''absent''"
      "resolv_states params ctx status =
         andthen (except_HdfsUtilsError (remove ctx (p_path params) True) (\<lambda>e. fail_json e)) (\<lambda>_. ret True)"
  | (unsupported)
      "\<not> (s_state status = ''absent'' \<and> p_state params = ''file'')"
      "\<not> (s_state status = ''absent'' \<and> p_state params = ''directory'')"
      "\<not> (s_state status \<in> {''absent'', ''file''} \<and> p_state params = ''touch'')"
      "\<not> (s_state status = ''file'' \<and> p_state params = ''absent'')"
      "\<not> (s_state status = ''directory'' \<and> p_state params = ''absent'')"
      "\<And>s. resolv_states params ctx status s =
         (Inl (FailJson (''unsupported state convert '' @ quote @ s_state status @ quote @ '' -> ''
                          @ quote @ p_state params @ quote)), s)"
proof -
  let ?c1 = "s_state status = ''absent'' \<and> p_state params = ''file''"
  let ?c2 = "s_state status = ''absent'' \<and> p_state params = ''directory''"
  let ?c3 = "p_state params = ''touch'' \<and> s_state status \<in> set [''absent'', ''file'']"
  let ?c4 = "p_state params = ''absent'' \<and> s_state status = ''file''"
  let ?c5 = "p_state params = ''absent'' \<and> s_state status = ''directory''"
  show thesis
  proof (cases ?c1)
    case True
    then have "\<And>s. resolv_states params ctx status s = 
         (Inl (FailJson (''no such file, to create new file use state 'touch' instead of 'file'' @ quote)), s)"
      by (simp add: resolv_states_def Let_def guarded_fail)
    with True show thesis using no_file by blast
  next
    case n1: False
    show thesis
    proof (cases ?c2)
      case True
      then have "resolv_states params ctx status =
         andthen (except_HdfsUtilsError (mkdir ctx (p_path params) True) (\<lambda>e. fail_json e)) (\<lambda>_. ret True)"
        by (simp add: resolv_states_def Let_def)
      with True show thesis using mkdir by blast
    next
      case n2: False
      show thesis
      proof (cases ?c3)
        case True
        then have new: "p_state params = ''touch''"
          and old: "s_state status = ''absent'' \<or> s_state status = ''file''"
          by (simp_all only: list.set insert_iff empty_iff simp_thms)
        have "resolv_states params ctx status =
           andthen (except_HdfsUtilsError (touch ctx (p_path params)) (\<lambda>e. fail_json e)) (\<lambda>_. ret True)"
          using old
        proof
          assume "s_state status = ''absent''"
          with new show ?thesis by (simp add: resolv_states_def Let_def)
        next
          assume "s_state status = ''file''"
          with new show ?thesis by (simp add: resolv_states_def Let_def)
        qed
        moreover have "s_state status \<in> {''absent'', ''file''}"
          using old by blast
        ultimately show thesis using new touch by blast
      next
        case n3: False
        show thesis
        proof (cases ?c4)
          case True
          then have "resolv_states params ctx status =
             andthen (except_HdfsUtilsError (remove ctx (p_path params) False) (\<lambda>e. fail_json e)) (\<lambda>_. ret True)"
            by (simp add: resolv_states_def Let_def)
          with True show thesis using remove_file by blast
        next
          case n4: False
          show thesis
          proof (cases ?c5)
            case True
            then have "resolv_states params ctx status =
               andthen (except_HdfsUtilsError (remove ctx (p_path params) True) (\<lambda>e. fail_json e)) (\<lambda>_. ret True)"
              by (simp add: resolv_states_def Let_def)
            with True show thesis using remove_directory by blast
          next
            case n5: False
            have "\<And>s. resolv_states params ctx status s =
               (Inl (FailJson (''unsupported state convert '' @ quote @ s_state status @ quote @ '' -> ''
                          @ quote @ p_state params @ quote)), s)"
              using n1 n2 n3 n4 n5 by (simp only: resolv_states_def Let_def if_False guarded_fail)
            moreover have "\<not> (s_state status \<in> {''absent'', ''file''} \<and> p_state params = ''touch'')"
              using n3 by (simp only: list.set) blast
            moreover have "\<not> (s_state status = ''file'' \<and> p_state params = ''absent'')"
              using n4 by blast
            moreover have "\<not> (s_state status = ''directory'' \<and> p_state params = ''absent'')"
              using n5 by blast
            ultimately show thesis using n1 n2 unsupported by blast
          qed
        qed
      qed
    qed
  qed
qed

lemma andthen_Inr:
  "andthen m f s = (Inr y, s') \<longleftrightarrow> (\<exists>x s1. m s = (Inr x, s1) \<and> f x s1 = (Inr y, s'))"
  by (cases "m s"; cases "fst (m s)"; simp add: andthen_def)

lemma ret_eq: "ret x s = (r, s') \<longleftrightarrow> r = Inr x \<and> s' = s"
  by (auto simp: ret_def)

lemma logged_eq:
  "logged c m (s, l) = (r, (s', l')) \<longleftrightarrow> m s = (r, s') \<and> l' = l @ [c]"
  by (cases "m s") (auto simp: logged_def)

text \<open>One conditional attribute call under the spy, in a run that completes.\<close>

lemma attribute_step:
  assumes k: "\<And>ch s l c. k ch (s, l) = (Inr c, (s', log)) \<Longrightarrow>
                c = (ch \<or> F) \<and> filter is_attribute_call log = filter is_attribute_call l @ cs"
    and cl: "is_attribute_call cl"
    and run: "andthen (if b then andthen (logged cl m) (\<lambda>_. ret True) else ret ch) k (s, l)
              = (Inr c, (s', log))"
  shows "c = (ch \<or> b \<or> F) \<and>
         filter is_attribute_call log = filter is_attribute_call l @ (if b then [cl] else []) @ cs"
proof (cases b)
  case True
  with run obtain s1 where "k True (s1, l @ [cl]) = (Inr c, (s', log))"
    by (auto simp: andthen_Inr ret_eq logged_eq)
  from k [OF this] cl True show ?thesis by simp
next
  case False
  with run have "k ch (s, l) = (Inr c, (s', log))"
    by (auto simp: andthen_Inr ret_eq)
  from k [OF this] False show ?thesis by simp
qed

lemma resolv_states_spy_Inr:
  assumes "resolv_states params (spy ctx) status (s, l) = (Inr b, (s', l'))"
  shows "filter is_attribute_call l' = filter is_attribute_call l"
proof (cases rule: resolv_states_cases [of status params "spy ctx"])
  case no_file
  with assms show ?thesis by simp
next
  case mkdir
  with assms show ?thesis by (auto simp: guarded_call_Inr spy_simps logged_eq)
next
  case touch
  with assms show ?thesis by (auto simp: guarded_call_Inr spy_simps logged_eq)
next
  case remove_file
  with assms show ?thesis by (auto simp: guarded_call_Inr spy_simps logged_eq)
next
  case remove_directory
  with assms show ?thesis by (auto simp: guarded_call_Inr spy_simps logged_eq)
next
  case unsupported
  with assms show ?thesis by simp
qed

lemma cond_step_Inr:
  assumes "(if b then andthen m (\<lambda>_. ret True) else ret False) s = (Inr ch, q)"
  shows "ch = b \<and> (b \<longrightarrow> (\<exists>x. m s = (Inr x, q))) \<and> (\<not> b \<longrightarrow> q = s)"
  using assms by (cases b) (auto simp: andthen_Inr ret_eq)

lemma reconcile_spy_completed:
  assumes run: "reconcile params (spy ctx) (s, l0) = (Inr c, (s', log))"
  shows "\<exists>st s1. stats ctx (p_path params) s = (Inr st, s1) \<and>
     c = would_change st params \<and>
     filter is_attribute_call log =
       filter is_attribute_call l0
       @ (if p_state params = ''absent'' then [] else attribute_calls st params)"
proof -
  from run obtain st s1 q ch where
    st: "stats ctx (p_path params) s = (Inr st, s1)" and
    tr: "(if s_state st \<noteq> p_state params
          then andthen (resolv_states params (spy ctx) st) (\<lambda>_. ret True)
          else ret False) (s1, l0 @ [Stats (p_path params)]) = (Inr ch, q)" and
    rest: "(if p_state params = ''absent'' then ret ch
      else
     andthen (if should_modify st params Owner
              then andthen (chown (spy ctx) (p_path params) (p_owner params) None (p_recurse params))
                     (\<lambda>_. ret True)
              else ret ch) (\<lambda>changed.
     andthen (if should_modify st params Group
              then andthen (chown (spy ctx) (p_path params) None (p_group params) (p_recurse params))
                     (\<lambda>_. ret True)
              else ret changed) (\<lambda>changed.
     andthen (if should_modify st params Replication
              then andthen (setrep (spy ctx) (p_path params) (the (p_replication params)))
                     (\<lambda>_. ret True)
              else ret changed) (\<lambda>changed.
     andthen (if p_mode params \<noteq> None
              then andthen (chmod (spy ctx) (p_path params) (the (p_mode params)) (p_recurse params))
                     (\<lambda>_. ret True)
              else ret changed) (\<lambda>changed.
     ret changed))))) q = (Inr c, (s', log))"
    unfolding reconcile_def andthen_Inr [of "stats (spy ctx) (p_path params)"]
      andthen_Inr [of "if s_state _ \<noteq> p_state params then _ else _"]
    by (auto simp: spy_simps(6) logged_eq)
  obtain s2 l2 where q: "q = (s2, l2)" by (cases q)
  from cond_step_Inr [OF tr [unfolded q]]
  have ch: "ch = (s_state st \<noteq> p_state params)"
    and l2: "filter is_attribute_call l2 = filter is_attribute_call l0"
    by (auto dest: resolv_states_spy_Inr)
  show ?thesis
  proof (cases "p_state params = ''absent''")
    case True
    from rest [unfolded if_P [OF True] q] have "c = ch" "log = l2"
      by (simp_all add: ret_eq)
    with st ch l2 True show ?thesis
      unfolding if_P [OF True] would_change_def by auto
  next
    case False
    let ?own = "Chown (p_path params) (p_owner params) None (p_recurse params)"
    let ?grp = "Chown (p_path params) None (p_group params) (p_recurse params)"
    let ?rep = "Setrep (p_path params) (the (p_replication params))"
    let ?mod = "Chmod (p_path params) (the (p_mode params)) (p_recurse params)"
    have k4: "c = (ch \<or> False) \<and> filter is_attribute_call log = filter is_attribute_call l @ []"
      if "ret ch (s, l) = (Inr c, (s', log))" for ch s l c
      using that by (auto simp: ret_eq)
    have k3: "c = (ch \<or> p_mode params \<noteq> None \<or> False) \<and>
        filter is_attribute_call log
          = filter is_attribute_call l @ (if p_mode params \<noteq> None then [?mod] else []) @ []"
      if "andthen (if p_mode params \<noteq> None
              then andthen (chmod (spy ctx) (p_path params) (the (p_mode params)) (p_recurse params))
                     (\<lambda>_. ret True)
              else ret ch) (\<lambda>changed. ret changed) (s, l) = (Inr c, (s', log))" for ch s l c
      using attribute_step [OF k4 _ that [unfolded spy_simps]] by simp
    have k2: "c = (ch \<or> should_modify st params Replication \<or> p_mode params \<noteq> None \<or> False) \<and>
        filter is_attribute_call log
          = filter is_attribute_call l @ (if should_modify st params Replication then [?rep] else [])
            @ (if p_mode params \<noteq> None then [?mod] else []) @ []"
      if "andthen (if should_modify st params Replication
              then andthen (setrep (spy ctx) (p_path params) (the (p_replication params)))
                     (\<lambda>_. ret True)
              else ret ch) (\<lambda>changed.
          andthen (if p_mode params \<noteq> None
              then andthen (chmod (spy ctx) (p_path params) (the (p_mode params)) (p_recurse params))
                     (\<lambda>_. ret True)
              else ret changed) (\<lambda>changed. ret changed)) (s, l) = (Inr c, (s', log))" for ch s l c
      using attribute_step [OF k3 [unfolded spy_simps] _ that [unfolded spy_simps]] by simp
    have k1: "c = (ch \<or> should_modify st params Group \<or> should_modify st params Replication
                  \<or> p_mode params \<noteq> None \<or> False) \<and>
        filter is_attribute_call log
          = filter is_attribute_call l @ (if should_modify st params Group then [?grp] else [])
            @ (if should_modify st params Replication then [?rep] else [])
            @ (if p_mode params \<noteq> None then [?mod] else []) @ []"
      if "andthen (if should_modify st params Group
              then andthen (chown (spy ctx) (p_path params) None (p_group params) (p_recurse params))
                     (\<lambda>_. ret True)
              else ret ch) (\<lambda>changed.
          andthen (if should_modify st params Replication
              then andthen (setrep (spy ctx) (p_path params) (the (p_replication params)))
                     (\<lambda>_. ret True)
              else ret changed) (\<lambda>changed.
          andthen (if p_mode params \<noteq> None
              then andthen (chmod (spy ctx) (p_path params) (the (p_mode params)) (p_recurse params))
                     (\<lambda>_. ret True)
              else ret changed) (\<lambda>changed. ret changed))) (s, l) = (Inr c, (s', log))" for ch s l c
      using attribute_step [OF k2 [unfolded spy_simps] _ that [unfolded spy_simps]] by simp
    have "c = (ch \<or> should_modify st params Owner \<or> should_modify st params Group \<or>
        should_modify st params Replication \<or> p_mode params \<noteq> None) \<and>
       filter is_attribute_call log = filter is_attribute_call l2 @ attribute_calls st params"
      unfolding attribute_calls_def
      using attribute_step [OF k1 [unfolded spy_simps] _ rest [unfolded if_not_P [OF False] q spy_simps]] by simp
    with st ch l2 False show ?thesis
      unfolding if_not_P [OF False] would_change_def by auto
  qed
qed

lemma same_run_logged: "same_run (logged c m) m"
  by (simp add: same_run_def logged_apply)

lemma same_run_ret: "same_run (ret x) (ret x)"
  by (simp add: same_run_def ret_def)

lemma same_run_fail_json: "same_run (fail_json msg) (fail_json msg)"
  by (simp add: same_run_def fail_json_def raise_def)

lemma same_run_andthen:
  assumes "same_run M m" and "\<And>x. same_run (F x) (f x)"
  shows "same_run (andthen M F) (andthen m f)"
  unfolding same_run_def
proof (intro allI)
  fix s l
  obtain r s1 l1 where M: "M (s, l) = (r, (s1, l1))"
    by (metis prod.collapse)
  with assms(1) have m: "m s = (r, s1)"
    unfolding same_run_def by (metis fst_conv snd_conv prod.collapse)
  show "fst (andthen M F (s, l)) = fst (andthen m f s) \<and>
        fst (snd (andthen M F (s, l))) = snd (andthen m f s)"
  proof (cases r)
    case (Inl e)
    with M m show ?thesis by (simp add: andthen_def)
  next
    case (Inr x)
    with M m assms(2) [of x] show ?thesis by (simp add: andthen_def same_run_def)
  qed
qed

lemma same_run_except:
  assumes "same_run M m" and "\<And>e. same_run (H e) (h e)"
  shows "same_run (except_HdfsUtilsError M H) (except_HdfsUtilsError m h)"
  unfolding same_run_def
proof (intro allI)
  fix s l
  obtain r s1 l1 where M: "M (s, l) = (r, (s1, l1))"
    by (metis prod.collapse)
  with assms(1) have m: "m s = (r, s1)"
    unfolding same_run_def by (metis fst_conv snd_conv prod.collapse)
  show "fst (except_HdfsUtilsError M H (s, l)) = fst (except_HdfsUtilsError m h s) \<and>
        fst (snd (except_HdfsUtilsError M H (s, l))) = snd (except_HdfsUtilsError m h s)"
  proof (cases r)
    case (Inl e)
    with M m assms(2) show ?thesis
      by (cases e) (simp_all add: except_HdfsUtilsError_def same_run_def)
  next
    case (Inr x)
    with M m show ?thesis by (simp add: except_HdfsUtilsError_def)
  qed
qed

lemma same_run_if:
  assumes "b \<Longrightarrow> same_run M m" and "\<not> b \<Longrightarrow> same_run N n"
  shows "same_run (if b then M else N) (if b then m else n)"
  using assms by (cases b) simp_all

lemma same_run_resolv_states:
  "same_run (resolv_states params (spy ctx) status) (resolv_states params ctx status)"
  unfolding resolv_states_def Let_def spy_simps
  by (intro same_run_andthen same_run_except same_run_if same_run_logged same_run_ret
      same_run_fail_json)

text \<open>A run on the wrapped context is the run on the context itself, with a log beside it.\<close>

lemma spy_same_run: "same_run (reconcile params (spy ctx)) (reconcile params ctx)"
  unfolding reconcile_def spy_simps
  by (intro same_run_andthen same_run_if same_run_logged same_run_ret same_run_resolv_states)

lemma spy_transparent:
  "reconcile params ctx s = (fst (reconcile params (spy ctx) (s, l)),
                             fst (snd (reconcile params (spy ctx) (s, l))))"
  using spy_same_run [of params ctx] unfolding same_run_def by simp

lemma reconcile_completed:
  assumes "reconcile params ctx s = (Inr c, s')"
  shows "\<exists>st s1. stats ctx (p_path params) s = (Inr st, s1) \<and> c = would_change st params"
proof -
  let ?run = "reconcile params (spy ctx) (s, [])"
  from assms have "?run = (Inr c, (s', snd (snd ?run)))"
    using spy_transparent [of params ctx s "[]"] by (metis prod.collapse prod.inject)
  from reconcile_spy_completed [OF this] show ?thesis by blast
qed

subsection \<open>The claims about the module\<close>

text \<open>
  Claim C4. When the current state differs from the desired one, \<^verbatim>\<open>resolv_states\<close>
  follows the table: from absent to file it fails without calling the context; from
  absent to directory it calls \<open>mkdir\<close> with \<open>parent=True\<close>; from absent or file to
  touch it calls \<open>touch\<close>; from file to absent it calls \<open>remove\<close> without
  \<open>recurse\<close>; from directory to absent it calls \<open>remove\<close> with \<open>recurse=True\<close>;
  every other pair fails, without a call, with a message that names both states. In the
  four rows with a call, that call is the only one made and the backend is left as the
  call leaves it.
\<close>

theorem resolv_states_table:
  fixes ctx :: "'s hdfs_context"
  assumes "s_state status \<noteq> p_state params"
  shows
  "(s_state status = ''absent'' \<and> p_state params = ''file'' \<longrightarrow>
      (\<exists>msg. resolv_states params (spy ctx) status (s, []) = (Inl (FailJson msg), (s, [])))) \<and>
   (s_state status = ''absent'' \<and> p_state params = ''directory'' \<longrightarrow>
      snd (resolv_states params (spy ctx) status (s, []))
        = (snd (mkdir ctx (p_path params) True s), [Mkdir (p_path params) True])) \<and>
   (s_state status \<in> {''absent'', ''file''} \<and> p_state params = ''touch'' \<longrightarrow>
      snd (resolv_states params (spy ctx) status (s, []))
        = (snd (touch ctx (p_path params) s), [Touch (p_path params)])) \<and>
   (s_state status = ''file'' \<and> p_state params = ''absent'' \<longrightarrow>
      snd (resolv_states params (spy ctx) status (s, []))
        = (snd (remove ctx (p_path params) False s), [Remove (p_path params) False])) \<and>
   (s_state status = ''directory'' \<and> p_state params = ''absent'' \<longrightarrow>
      snd (resolv_states params (spy ctx) status (s, []))
        = (snd (remove ctx (p_path params) True s), [Remove (p_path params) True])) \<and>
   (\<not> (s_state status = ''absent'' \<and> p_state params = ''file'') \<and>
    \<not> (s_state status = ''absent'' \<and> p_state params = ''directory'') \<and>
    \<not> (s_state status \<in> {''absent'', ''file''} \<and> p_state params = ''touch'') \<and>
    \<not> (s_state status = ''file'' \<and> p_state params = ''absent'') \<and>
    \<not> (s_state status = ''directory'' \<and> p_state params = ''absent'') \<longrightarrow>
      resolv_states params (spy ctx) status (s, [])
        = (Inl (FailJson (''unsupported state convert '' @ quote @ s_state status @ quote
                          @ '' -> '' @ quote @ p_state params @ quote)), (s, [])))"
proof (cases rule: resolv_states_cases [of status params "spy ctx"])
  case no_file
  then show ?thesis by simp
next
  case mkdir
  then show ?thesis by (simp add: guarded_call_snd spy_simps logged_apply)
next
  case touch
  from touch(1) have "s_state status = ''absent'' \<or> s_state status = ''file''" by blast
  then show ?thesis
  proof
    assume "s_state status = ''absent''"
    with touch(2,3) show ?thesis by (simp add: guarded_call_snd spy_simps logged_apply)
  next
    assume "s_state status = ''file''"
    with touch(2,3) show ?thesis by (simp add: guarded_call_snd spy_simps logged_apply)
  qed
next
  case remove_file
  then show ?thesis by (simp add: guarded_call_snd spy_simps logged_apply)
next
  case remove_directory
  then show ?thesis by (simp add: guarded_call_snd spy_simps logged_apply)
next
  case unsupported
  then show ?thesis by blast
qed

theorem resolv_states_table_witness:
  "s_state absent_status \<noteq> p_state create_folder \<and>
   fst (resolv_states create_folder (spy fs_context) absent_status (empty_fs, [])) = Inr True \<and>
   snd (snd (resolv_states create_folder (spy fs_context) absent_status (empty_fs, [])))
     = [Mkdir ''/tmp/myfolder'' True]"
proof -
  have differ: "s_state absent_status \<noteq> p_state create_folder"
    by (simp add: absent_status_def create_folder_def)
  have returns: "fst (resolv_states create_folder (spy fs_context) absent_status (empty_fs, [])) = Inr True"
    by code_simp
  show ?thesis
    using resolv_states_table [OF differ, of fs_context empty_fs] differ returns
    by (simp add: absent_status_def create_folder_def)
qed

lemma resolv_states_spy_log:
  "filter is_attribute_call (snd (snd (resolv_states params (spy ctx) status (s, l))))
   = filter is_attribute_call l"
proof (cases rule: resolv_states_cases [of status params "spy ctx"])
  case no_file
  then show ?thesis by simp
next
  case mkdir
  then show ?thesis by (simp add: guarded_call_snd spy_simps logged_apply)
next
  case touch
  then show ?thesis by (simp only: guarded_call_snd spy_simps logged_apply) simp
next
  case remove_file
  then show ?thesis by (simp add: guarded_call_snd spy_simps logged_apply)
next
  case remove_directory
  then show ?thesis by (simp add: guarded_call_snd spy_simps logged_apply)
next
  case unsupported
  then show ?thesis by (simp only: snd_conv)
qed

lemma andthen_ret_snd: "snd (andthen m (\<lambda>_. ret x) s) = snd (m s)"
  by (cases "m s"; cases "fst (m s)"; simp add: andthen_def ret_def)

lemma andthen_ret_id: "andthen m (\<lambda>x. ret x) s = m s"
  by (cases "m s"; cases "fst (m s)"; simp add: andthen_def ret_def)

lemma absent_run:
  assumes absent: "p_state params = ''absent''"
    and run: "reconcile params (spy ctx) (s, []) = (r, (s', log))"
    and st: "stats ctx (p_path params) s = (Inr st, s1)"
  shows "filter is_attribute_call log = [] \<and>
     (s_state st = ''absent'' \<longrightarrow> r = Inr False \<and> s' = s1 \<and> log = [Stats (p_path params)]) \<and>
     (s_state st \<noteq> ''absent'' \<longrightarrow>
        (r, (s', log)) = andthen (resolv_states params (spy ctx) st) (\<lambda>_. ret True)
                           (s1, [Stats (p_path params)]))"
proof -
  have first: "stats (spy ctx) (p_path params) (s, []) = (Inr st, (s1, [Stats (p_path params)]))"
    using st by (simp add: spy_simps logged_eq)
  have unfold: "reconcile params (spy ctx) (s, []) =
      (if s_state st \<noteq> ''absent''
       then andthen (resolv_states params (spy ctx) st) (\<lambda>_. ret True)
       else ret False) (s1, [Stats (p_path params)])"
    unfolding reconcile_def absent andthen_def [of "stats (spy ctx) (p_path params)"] first
    by (simp only: if_True prod.case sum.case simp_thms andthen_ret_id)
  show ?thesis
  proof (cases "s_state st = ''absent''")
    case True
    with unfold run show ?thesis
      by (simp add: ret_def)
  next
    case False
    have eq: "(r, (s', log)) = andthen (resolv_states params (spy ctx) st) (\<lambda>_. ret True)
                           (s1, [Stats (p_path params)])"
      using run unfold False by (simp only: if_True simp_thms)
    have "log = snd (snd (resolv_states params (spy ctx) st (s1, [Stats (p_path params)])))"
      using arg_cong [OF eq, of "\<lambda>x. snd (snd x)"] by (simp add: andthen_ret_snd)
    then have "filter is_attribute_call log = []"
      by (simp add: resolv_states_spy_log)
    with eq False show ?thesis by blast
  qed
qed

text \<open>
  Claim C8. With \<open>state=absent\<close> no attribute call (\<open>chown\<close>, \<open>setrep\<close>,
  \<open>chmod\<close>) is ever made, whatever owner, group, replication and mode are and whether
  the run succeeds or not. When the path is already absent the run returns
  \<open>changed=False\<close> right after \<open>stats\<close>; otherwise the run is \<open>stats\<close> followed by
  the transition step and nothing else, and it returns \<open>changed=True\<close> when that step
  returns.
\<close>

theorem absent_returns_early:
  assumes absent: "p_state params = ''absent''"
    and run: "reconcile params (spy ctx) (s, []) = (r, (s', log))"
  shows "filter is_attribute_call log = [] \<and>
     (\<forall>st s1. stats ctx (p_path params) s = (Inr st, s1) \<longrightarrow>
        (s_state st = ''absent'' \<longrightarrow>
           r = Inr False \<and> s' = s1 \<and> log = [Stats (p_path params)]) \<and>
        (s_state st \<noteq> ''absent'' \<longrightarrow>
           (r, (s', log)) = andthen (resolv_states params (spy ctx) st) (\<lambda>_. ret True)
                              (s1, [Stats (p_path params)])))"
proof (cases "stats ctx (p_path params) s")
  case (Pair x s1)
  show ?thesis
  proof (cases x)
    case (Inl e)
    with Pair have "stats (spy ctx) (p_path params) (s, []) = (Inl e, (s1, [Stats (p_path params)]))"
      by (simp add: spy_simps logged_eq)
    then have "reconcile params (spy ctx) (s, []) = (Inl e, (s1, [Stats (p_path params)]))"
      unfolding reconcile_def by (simp add: andthen_def)
    with run have "log = [Stats (p_path params)]" by simp
    with Pair Inl show ?thesis by simp
  next
    case (Inr st)
    from absent_run [OF absent run Pair [unfolded Inr]] Pair Inr show ?thesis by simp
  qed
qed

theorem absent_returns_early_witness:
  "p_state delete_folder = ''absent'' \<and>
   fst (reconcile delete_folder (spy fs_context) (folder_fs, [])) = Inr True \<and>
   snd (snd (reconcile delete_folder (spy fs_context) (folder_fs, [])))
     = [Stats ''/tmp/myfolder'', Remove ''/tmp/myfolder'' True] \<and>
   filter is_attribute_call (snd (snd (reconcile delete_folder (spy fs_context) (folder_fs, [])))) = []"
proof -
  have absent: "p_state delete_folder = ''absent''"
    by (simp add: delete_folder_def)
  have run: "reconcile delete_folder (spy fs_context) (folder_fs, [])
      = (fst (reconcile delete_folder (spy fs_context) (folder_fs, [])),
         (fst (snd (reconcile delete_folder (spy fs_context) (folder_fs, []))),
          snd (snd (reconcile delete_folder (spy fs_context) (folder_fs, [])))))"
    by simp
  have st: "stats fs_context (p_path delete_folder) folder_fs
      = (Inr (folder_fs (p_path delete_folder)), folder_fs)"
    by (simp add: fs_context_def folder_fs_def delete_folder_def)
  have flag: "fst (reconcile delete_folder (spy fs_context) (folder_fs, [])) = Inr True"
    by code_simp
  have calls: "snd (snd (reconcile delete_folder (spy fs_context) (folder_fs, [])))
     = [Stats ''/tmp/myfolder'', Remove ''/tmp/myfolder'' True]"
    by code_simp
  show ?thesis
    using absent_returns_early [OF absent run] absent flag calls by simp
qed

lemma filter_chmod_attribute:
  "filter is_chmod (filter is_attribute_call xs) = filter is_chmod xs"
proof -
  have "is_attribute_call x \<and> is_chmod x \<longleftrightarrow> is_chmod x" for x
    by (cases x) simp_all
  then show ?thesis by simp
qed

lemma filter_chown_attribute:
  "filter is_chown (filter is_attribute_call xs) = filter is_chown xs"
proof -
  have "is_attribute_call x \<and> is_chown x \<longleftrightarrow> is_chown x" for x
    by (cases x) simp_all
  then show ?thesis by simp
qed

lemma mode_step:
  assumes mode: "p_mode params = Some m" and present: "p_state params \<noteq> ''absent''"
    and run: "reconcile params (spy ctx) (s, []) = (Inr c, (s', log))"
  shows "c \<and> filter is_chmod log = [Chmod (p_path params) m (p_recurse params)]"
proof -
  from reconcile_spy_completed [OF run] obtain st s1 where
    c: "c = would_change st params" and
    calls: "filter is_attribute_call log
      = filter is_attribute_call [] @ (if p_state params = ''absent'' then [] else attribute_calls st params)"
    by blast
  from c mode present have "c"
    unfolding would_change_def by simp
  moreover have "filter is_chmod (filter is_attribute_call log)
      = filter is_chmod (attribute_calls st params)"
    unfolding calls [unfolded if_not_P [OF present]] by simp
  then have "filter is_chmod log = filter is_chmod (attribute_calls st params)"
    by (simp only: filter_chmod_attribute)
  then have "filter is_chmod log = [Chmod (p_path params) m (p_recurse params)]"
    using mode by (simp add: attribute_calls_def)
  ultimately show ?thesis by blast
qed

text \<open>
  Claim C6. With a mode set and a state other than absent, a run that completes has
  called \<open>chmod\<close> exactly once, with the path, the mode and \<open>recurse\<close> of the
  parameters, and reports \<open>changed=True\<close>; the current status plays no part. The same
  holds for a second run that starts where the first one ended.
\<close>

theorem mode_always_changed:
  assumes "p_mode params = Some m" and "p_state params \<noteq> ''absent''"
    and "reconcile params (spy ctx) (s, []) = (Inr c1, (s1, log1))"
    and "reconcile params (spy ctx) (s1, []) = (Inr c2, (s2, log2))"
  shows "c1 \<and> filter is_chmod log1 = [Chmod (p_path params) m (p_recurse params)] \<and>
         c2 \<and> filter is_chmod log2 = [Chmod (p_path params) m (p_recurse params)]"
  using mode_step [OF assms(1,2,3)] mode_step [OF assms(1,2,4)] by blast

theorem mode_always_changed_witness:
  "p_mode create_folder = Some ''0755'' \<and> p_state create_folder \<noteq> ''absent'' \<and>
   fst (reconcile create_folder (spy fs_context) (empty_fs, [])) = Inr True \<and>
   fst (reconcile create_folder (spy fs_context)
          (fst (snd (reconcile create_folder (spy fs_context) (empty_fs, []))), [])) = Inr True \<and>
   filter is_chmod (snd (snd (reconcile create_folder (spy fs_context)
          (fst (snd (reconcile create_folder (spy fs_context) (empty_fs, []))), []))))
     = [Chmod ''/tmp/myfolder'' ''0755'' None]"
proof -
  let ?run1 = "reconcile create_folder (spy fs_context) (empty_fs, [])"
  let ?run2 = "reconcile create_folder (spy fs_context) (fst (snd ?run1), [])"
  have mode: "p_mode create_folder = Some ''0755''"
    and present: "p_state create_folder \<noteq> ''absent''"
    by (simp_all add: create_folder_def)
  have flag1: "fst ?run1 = Inr True"
    by code_simp
  have flag2: "fst ?run2 = Inr True"
    by code_simp
  have run1: "?run1 = (Inr True, (fst (snd ?run1), snd (snd ?run1)))"
    using flag1 by (metis prod.collapse)
  have run2: "?run2 = (Inr True, (fst (snd ?run2), snd (snd ?run2)))"
    using flag2 by (metis prod.collapse)
  show ?thesis
    using mode_always_changed [OF mode present run1 run2] mode present flag1 flag2
    by (simp add: create_folder_def)
qed

lemma touch_should_modify:
  "p_state params = ''touch'' \<Longrightarrow> should_modify status params a = (params_item params a \<noteq> None)"
  by (simp add: should_modify_def)

lemma touch_step:
  assumes touch: "p_state params = ''touch''"
    and run: "reconcile params (spy ctx) (s, []) = (Inr c, (s', log))"
  shows "filter is_attribute_call log =
       (case p_owner params of None \<Rightarrow> []
        | Some v \<Rightarrow> [Chown (p_path params) (Some v) None (p_recurse params)])
       @ (case p_group params of None \<Rightarrow> []
          | Some v \<Rightarrow> [Chown (p_path params) None (Some v) (p_recurse params)])
       @ (case p_replication params of None \<Rightarrow> []
          | Some v \<Rightarrow> [Setrep (p_path params) v])
       @ (case p_mode params of None \<Rightarrow> []
          | Some v \<Rightarrow> [Chmod (p_path params) v (p_recurse params)])"
    and "(\<exists>a. params_item params a \<noteq> None) \<longrightarrow> c"
proof -
  have present: "p_state params \<noteq> ''absent''"
    using touch by simp
  from reconcile_spy_completed [OF run] obtain st s1 where
    c: "c = would_change st params" and
    calls: "filter is_attribute_call log
      = filter is_attribute_call [] @ (if p_state params = ''absent'' then [] else attribute_calls st params)"
    by blast
  have sm: "should_modify st params Owner = (p_owner params \<noteq> None)"
    "should_modify st params Group = (p_group params \<noteq> None)"
    "should_modify st params Replication = (p_replication params \<noteq> None)"
    by (simp_all add: touch_should_modify [OF touch] params_item_def)
  show "filter is_attribute_call log =
       (case p_owner params of None \<Rightarrow> []
        | Some v \<Rightarrow> [Chown (p_path params) (Some v) None (p_recurse params)])
       @ (case p_group params of None \<Rightarrow> []
          | Some v \<Rightarrow> [Chown (p_path params) None (Some v) (p_recurse params)])
       @ (case p_replication params of None \<Rightarrow> []
          | Some v \<Rightarrow> [Setrep (p_path params) v])
       @ (case p_mode params of None \<Rightarrow> []
          | Some v \<Rightarrow> [Chmod (p_path params) v (p_recurse params)])"
    unfolding calls [unfolded if_not_P [OF present]] attribute_calls_def sm
    by (simp split: option.splits)
  show "(\<exists>a. params_item params a \<noteq> None) \<longrightarrow> c"
  proof
    assume "\<exists>a. params_item params a \<noteq> None"
    then obtain a where "params_item params a \<noteq> None" ..
    then have "should_modify st params a"
      by (simp add: touch_should_modify [OF touch])
    then have "should_modify st params Owner \<or> should_modify st params Group \<or>
        should_modify st params Replication"
      by (cases a) simp_all
    with c present show c
      unfolding would_change_def by blast
  qed
qed

text \<open>
  Claim C5. With \<open>state=touch\<close>, \<^verbatim>\<open>should_modify\<close> is true for every attribute that
  is set, whatever the status says. So two runs in a row that complete make the same
  attribute calls, namely one call for each of owner, group, replication and mode that
  is set, and both report \<open>changed=True\<close> as soon as one of owner, group and
  replication is set.
\<close>

theorem touch_reapplies_attributes:
  assumes "p_state params = ''touch''"
  shows "(\<forall>status a. params_item params a \<noteq> None \<longrightarrow> should_modify status params a) \<and>
    (\<forall>c1 s1 log1 c2 s2 log2.
       reconcile params (spy ctx) (s, []) = (Inr c1, (s1, log1)) \<and>
       reconcile params (spy ctx) (s1, []) = (Inr c2, (s2, log2)) \<longrightarrow>
       filter is_attribute_call log1 = filter is_attribute_call log2 \<and>
       filter is_attribute_call log2 =
         (case p_owner params of None \<Rightarrow> []
          | Some v \<Rightarrow> [Chown (p_path params) (Some v) None (p_recurse params)])
         @ (case p_group params of None \<Rightarrow> []
            | Some v \<Rightarrow> [Chown (p_path params) None (Some v) (p_recurse params)])
         @ (case p_replication params of None \<Rightarrow> []
            | Some v \<Rightarrow> [Setrep (p_path params) v])
         @ (case p_mode params of None \<Rightarrow> []
            | Some v \<Rightarrow> [Chmod (p_path params) v (p_recurse params)]) \<and>
       ((\<exists>a. params_item params a \<noteq> None) \<longrightarrow> c1 \<and> c2))"
proof (intro conjI allI impI)
  fix status a
  assume "params_item params a \<noteq> None"
  then show "should_modify status params a"
    by (simp add: touch_should_modify [OF assms])
next
  fix c1 s1 log1 c2 s2 log2
  assume runs: "reconcile params (spy ctx) (s, []) = (Inr c1, (s1, log1)) \<and>
       reconcile params (spy ctx) (s1, []) = (Inr c2, (s2, log2))"
  note first = touch_step [OF assms conjunct1 [OF runs]]
  note second = touch_step [OF assms conjunct2 [OF runs]]
  show "filter is_attribute_call log1 = filter is_attribute_call log2"
    using first(1) second(1) by simp
  show "filter is_attribute_call log2 =
         (case p_owner params of None \<Rightarrow> []
          | Some v \<Rightarrow> [Chown (p_path params) (Some v) None (p_recurse params)])
         @ (case p_group params of None \<Rightarrow> []
            | Some v \<Rightarrow> [Chown (p_path params) None (Some v) (p_recurse params)])
         @ (case p_replication params of None \<Rightarrow> []
            | Some v \<Rightarrow> [Setrep (p_path params) v])
         @ (case p_mode params of None \<Rightarrow> []
            | Some v \<Rightarrow> [Chmod (p_path params) v (p_recurse params)])"
    by (rule second(1))
  assume requested: "\<exists>a. params_item params a \<noteq> None"
  from requested first(2) show c1 by blast
  from requested second(2) show c2 by blast
qed

theorem touch_reapplies_attributes_witness:
  "p_state create_file = ''touch'' \<and>
   should_modify \<lparr>s_state = ''file'', s_owner = Some ''myuser'', s_group = Some ''supergroup'',
                   s_replication = Some 3\<rparr> create_file Owner \<and>
   fst (reconcile create_file (spy fs_context) (empty_fs, [])) = Inr True \<and>
   fst (reconcile create_file (spy fs_context)
          (fst (snd (reconcile create_file (spy fs_context) (empty_fs, []))), [])) = Inr True \<and>
   filter is_attribute_call (snd (snd (reconcile create_file (spy fs_context)
          (fst (snd (reconcile create_file (spy fs_context) (empty_fs, []))), []))))
     = [Chown ''/tmp/myfile'' (Some ''myuser'') None None]"
proof -
  let ?run1 = "reconcile create_file (spy fs_context) (empty_fs, [])"
  let ?run2 = "reconcile create_file (spy fs_context) (fst (snd ?run1), [])"
  have touch: "p_state create_file = ''touch''"
    by (simp add: create_file_def)
  have owner: "params_item create_file Owner \<noteq> None"
    by (simp add: create_file_def params_item_def)
  have flag1: "fst ?run1 = Inr True"
    by code_simp
  have flag2: "fst ?run2 = Inr True"
    by code_simp
  have run1: "?run1 = (Inr True, (fst (snd ?run1), snd (snd ?run1)))"
    using flag1 by (metis prod.collapse)
  have run2: "?run2 = (Inr True, (fst (snd ?run2), snd (snd ?run2)))"
    using flag2 by (metis prod.collapse)
  note claim = touch_reapplies_attributes [OF touch, of fs_context empty_fs]
  from claim owner have "should_modify \<lparr>s_state = ''file'', s_owner = Some ''myuser'',
      s_group = Some ''supergroup'', s_replication = Some 3\<rparr> create_file Owner"
    by blast
  moreover from claim run1 run2 have "filter is_attribute_call (snd (snd ?run2)) =
         (case p_owner create_file of None \<Rightarrow> []
          | Some v \<Rightarrow> [Chown (p_path create_file) (Some v) None (p_recurse create_file)])
         @ (case p_group create_file of None \<Rightarrow> []
            | Some v \<Rightarrow> [Chown (p_path create_file) None (Some v) (p_recurse create_file)])
         @ (case p_replication create_file of None \<Rightarrow> []
            | Some v \<Rightarrow> [Setrep (p_path create_file) v])
         @ (case p_mode create_file of None \<Rightarrow> []
            | Some v \<Rightarrow> [Chmod (p_path create_file) v (p_recurse create_file)])"
    by blast
  ultimately show ?thesis
    using touch flag1 flag2 by (simp add: create_file_def)
qed

text \<open>
  Claim C2, as the code has it. For a state other than absent, a run that completes
  makes one \<open>chown\<close> call for each of owner and group that \<^verbatim>\<open>should_modify\<close> selects:
  first \<^verbatim>\<open>chown(path, owner=owner, recurse=recurse)\<close>, then
  \<^verbatim>\<open>chown(path, group=group, recurse=recurse)\<close>. Each call carries one of the two
  attributes; when both are selected there are two calls.
\<close>

theorem chown_per_attribute:
  assumes present: "p_state params \<noteq> ''absent''"
    and st: "stats ctx (p_path params) s = (Inr st, s1)"
    and run: "reconcile params (spy ctx) (s, []) = (Inr c, (s', log))"
  shows "filter is_chown log =
     (if should_modify st params Owner
      then [Chown (p_path params) (p_owner params) None (p_recurse params)] else [])
     @ (if should_modify st params Group
        then [Chown (p_path params) None (p_group params) (p_recurse params)] else [])"
proof -
  from reconcile_spy_completed [OF run] st have
    calls: "filter is_attribute_call log
      = filter is_attribute_call [] @ (if p_state params = ''absent'' then [] else attribute_calls st params)"
    by auto
  have "filter is_chown (filter is_attribute_call log) = filter is_chown (attribute_calls st params)"
    unfolding calls [unfolded if_not_P [OF present]] by simp
  then have "filter is_chown log = filter is_chown (attribute_calls st params)"
    by (simp only: filter_chown_attribute)
  then show ?thesis
    by (simp add: attribute_calls_def)
qed

theorem chown_per_attribute_witness:
  "p_state create_folder \<noteq> ''absent'' \<and>
   should_modify absent_status create_folder Owner \<and>
   should_modify absent_status create_folder Group \<and>
   fst (reconcile create_folder (spy fs_context) (empty_fs, [])) = Inr True \<and>
   filter is_chown (snd (snd (reconcile create_folder (spy fs_context) (empty_fs, []))))
     = [Chown ''/tmp/myfolder'' (Some ''myuser'') None None,
        Chown ''/tmp/myfolder'' None (Some ''mygroup'') None]"
proof -
  let ?run = "reconcile create_folder (spy fs_context) (empty_fs, [])"
  have present: "p_state create_folder \<noteq> ''absent''"
    by (simp add: create_folder_def)
  have st: "stats fs_context (p_path create_folder) empty_fs = (Inr absent_status, empty_fs)"
    by (simp add: fs_context_def empty_fs_def)
  have owner: "should_modify absent_status create_folder Owner"
    and grp: "should_modify absent_status create_folder Group"
    by code_simp+
  have flag: "fst ?run = Inr True"
    by code_simp
  have run: "?run = (Inr True, (fst (snd ?run), snd (snd ?run)))"
    using flag by (metis prod.collapse)
  show ?thesis
    using chown_per_attribute [OF present st run] present owner grp flag
    by (simp add: create_folder_def)
qed

text \<open>
  Claim C2 as it is written asks for exactly one combined call. Creating the folder of
  the module's first example, where owner and group are both set and both differ from
  the status, makes two \<open>chown\<close> calls, one with the owner and one with the group.
\<close>

theorem single_chown_counterexample:
  "p_owner create_folder = Some ''myuser'' \<and> p_group create_folder = Some ''mygroup'' \<and>
   should_modify absent_status create_folder Owner \<and>
   should_modify absent_status create_folder Group \<and>
   reconcile create_folder (spy fs_context) (empty_fs, [])
     = (Inr True, snd (reconcile create_folder (spy fs_context) (empty_fs, []))) \<and>
   filter is_chown (snd (snd (reconcile create_folder (spy fs_context) (empty_fs, []))))
     = [Chown ''/tmp/myfolder'' (Some ''myuser'') None None,
        Chown ''/tmp/myfolder'' None (Some ''mygroup'') None]"
proof -
  have "fst (reconcile create_folder (spy fs_context) (empty_fs, [])) = Inr True"
    by code_simp
  then have "reconcile create_folder (spy fs_context) (empty_fs, [])
     = (Inr True, snd (reconcile create_folder (spy fs_context) (empty_fs, [])))"
    by (metis prod.collapse)
  moreover have "p_owner create_folder = Some ''myuser''" "p_group create_folder = Some ''mygroup''"
    by (simp_all add: create_folder_def)
  moreover have "should_modify absent_status create_folder Owner"
    "should_modify absent_status create_folder Group"
    by code_simp+
  moreover have "filter is_chown (snd (snd (reconcile create_folder (spy fs_context) (empty_fs, []))))
     = [Chown ''/tmp/myfolder'' (Some ''myuser'') None None,
        Chown ''/tmp/myfolder'' None (Some ''mygroup'') None]"
    by code_simp
  ultimately show ?thesis by blast
qed

subsection \<open>Check mode\<close>

lemma patched_simps:
  "chmod (HdfsCheckMode_patched inst) = (\<lambda>path mode recurse. ret ())"
  "chown (HdfsCheckMode_patched inst) = (\<lambda>path owner grp recurse. ret ())"
  "mkdir (HdfsCheckMode_patched inst) = (\<lambda>path parent. ret ())"
  "remove (HdfsCheckMode_patched inst) = (\<lambda>path recurse. ret ())"
  "setrep (HdfsCheckMode_patched inst) = (\<lambda>path factor. ret ())"
  "touch (HdfsCheckMode_patched inst) = (\<lambda>path. ret ())"
  "stats (HdfsCheckMode_patched inst) = stats inst"
  by (simp_all add: HdfsCheckMode_patched_def)

lemma guarded_noop:
  "andthen (except_HdfsUtilsError (ret ()) (\<lambda>e. fail_json e)) (\<lambda>_. ret True) s = (Inr True, s)"
  by (simp add: andthen_def except_HdfsUtilsError_def ret_def)

text \<open>
  The transition step on the patched instance: it fails exactly in the two branches that
  call \<^verbatim>\<open>fail_json\<close>, and never touches the backend.
\<close>

lemma patched_resolv_states:
  "resolv_states params (HdfsCheckMode_patched ctx) st s = (Inr True, s) \<or>
   (\<exists>msg. (\<forall>s1. resolv_states params ctx st s1 = (Inl (FailJson msg), s1)) \<and>
          resolv_states params (HdfsCheckMode_patched ctx) st s = (Inl (FailJson msg), s))"
proof (cases rule: resolv_states_cases [of st params "HdfsCheckMode_patched ctx"])
  case no_file
  then have "resolv_states params ctx st s1 = (Inl (FailJson
      (''no such file, to create new file use state 'touch' instead of 'file'' @ quote)), s1)" for s1
    by (simp add: resolv_states_def Let_def guarded_fail)
  with no_file(3) show ?thesis by blast
next
  case mkdir
  then show ?thesis by (simp add: patched_simps guarded_noop)
next
  case touch
  then show ?thesis by (simp only: patched_simps guarded_noop simp_thms)
next
  case remove_file
  then show ?thesis by (simp add: patched_simps guarded_noop)
next
  case remove_directory
  then show ?thesis by (simp add: patched_simps guarded_noop)
next
  case unsupported
  have m3: "\<not> (p_state params = ''touch'' \<and> s_state st \<in> set [''absent'', ''file''])"
    using unsupported(3) by (simp only: list.set) blast
  have m4: "\<not> (p_state params = ''absent'' \<and> s_state st = ''file'')"
    using unsupported(4) by blast
  have m5: "\<not> (p_state params = ''absent'' \<and> s_state st = ''directory'')"
    using unsupported(5) by blast
  have "resolv_states params ctx st s1 =
      (Inl (FailJson (''unsupported state convert '' @ quote @ s_state st @ quote @ '' -> ''
                      @ quote @ p_state params @ quote)), s1)" for s1
    by (simp only: resolv_states_def Let_def unsupported(1,2) m3 m4 m5 if_False guarded_fail)
  with unsupported(6) show ?thesis by blast
qed

lemma andthen_bind: "m s = (Inr x, s1) \<Longrightarrow> andthen m f s = f x s1"
  by (simp add: andthen_def)

lemma andthen_fail: "m s = (Inl e, s1) \<Longrightarrow> andthen m f s = (Inl e, s1)"
  by (simp add: andthen_def)

lemma noop_step:
  "andthen (if b then andthen (ret ()) (\<lambda>_. ret True) else ret ch) k s = k (b \<or> ch) s"
  by (simp add: andthen_def ret_def)

lemma patched_reconcile:
  assumes st: "stats ctx (p_path params) s = (Inr st, s1)"
    and tr: "s_state st \<noteq> p_state params \<Longrightarrow>
             resolv_states params (HdfsCheckMode_patched ctx) st s1 = (Inr True, s1)"
  shows "reconcile params (HdfsCheckMode_patched ctx) s = (Inr (would_change st params), s1)"
proof -
  have first: "(if s_state st \<noteq> p_state params
         then andthen (resolv_states params (HdfsCheckMode_patched ctx) st) (\<lambda>_. ret True)
         else ret False) s1 = (Inr (s_state st \<noteq> p_state params), s1)"
    using tr by (cases "s_state st \<noteq> p_state params") (simp_all add: andthen_def ret_def)
  show ?thesis
  proof (cases "p_state params = ''absent''")
    case True
    show ?thesis
      unfolding reconcile_def patched_simps andthen_def [of "stats ctx (p_path params)"] st
        if_P [OF True]
      apply (simp only: prod.case sum.case)
      apply (subst andthen_def)
      apply (simp only: first prod.case sum.case)
      apply (simp add: ret_def would_change_def True)
      done
  next
    case False
    show ?thesis
      unfolding reconcile_def patched_simps andthen_def [of "stats ctx (p_path params)"] st
        if_not_P [OF False] noop_step
      apply (simp only: prod.case sum.case)
      apply (subst andthen_def)
      apply (simp only: first prod.case sum.case)
      apply (simp add: ret_def would_change_def False)
      apply blast
      done
  qed
qed

text \<open>
  What the wrapper was built to do. On the patched instance, a run leaves the backend as
  \<open>stats\<close> leaves it; and when the run on the instance itself completes, the run on the
  patched instance completes with the same flag.
\<close>

lemma patched_frame:
  "snd (reconcile params (HdfsCheckMode_patched ctx) s) = snd (stats ctx (p_path params) s)"
proof (cases "stats ctx (p_path params) s")
  case (Pair r s1)
  show ?thesis
  proof (cases r)
    case (Inl e)
    with Pair show ?thesis
      by (simp add: reconcile_def patched_simps andthen_def)
  next
    case (Inr st)
    from patched_resolv_states [of params ctx st s1] show ?thesis
    proof
      assume "resolv_states params (HdfsCheckMode_patched ctx) st s1 = (Inr True, s1)"
      from patched_reconcile [OF Pair [unfolded Inr] this] Pair show ?thesis by simp
    next
      assume "\<exists>msg. (\<forall>s1. resolv_states params ctx st s1 = (Inl (FailJson msg), s1)) \<and>
          resolv_states params (HdfsCheckMode_patched ctx) st s1 = (Inl (FailJson msg), s1)"
      then obtain msg where
        failed: "resolv_states params (HdfsCheckMode_patched ctx) st s1 = (Inl (FailJson msg), s1)"
        by blast
      show ?thesis
      proof (cases "s_state st \<noteq> p_state params")
        case True
        with failed have step: "(if s_state st \<noteq> p_state params
            then andthen (resolv_states params (HdfsCheckMode_patched ctx) st) (\<lambda>_. ret True)
            else ret False) s1 = (Inl (FailJson msg), s1)"
          by (simp add: andthen_def)
        have "reconcile params (HdfsCheckMode_patched ctx) s = (Inl (FailJson msg), s1)"
          unfolding reconcile_def patched_simps
          by (subst andthen_bind [where m = "stats ctx (p_path params)" and s = s,
                OF Pair [unfolded Inr]];
              rule andthen_fail [where m = "if s_state st \<noteq> p_state params
                then andthen (resolv_states params (HdfsCheckMode_patched ctx) st) (\<lambda>_. ret True)
                else ret False", OF step])
        with Pair show ?thesis by simp
      next
        case False
        then have "s_state st \<noteq> p_state params \<Longrightarrow>
             resolv_states params (HdfsCheckMode_patched ctx) st s1 = (Inr True, s1)"
          by blast
        from patched_reconcile [OF Pair [unfolded Inr] this] Pair show ?thesis by simp
      qed
    qed
  qed
qed

lemma patched_flag:
  assumes run: "reconcile params ctx s = (Inr c, s')"
  shows "fst (reconcile params (HdfsCheckMode_patched ctx) s) = Inr c"
proof -
  from run obtain st0 sa q ch where
    st0: "stats ctx (p_path params) s = (Inr st0, sa)" and
    tr: "(if s_state st0 \<noteq> p_state params
          then andthen (resolv_states params ctx st0) (\<lambda>_. ret True)
          else ret False) sa = (Inr ch, q)"
    unfolding reconcile_def andthen_Inr [of "stats ctx (p_path params)"]
      andthen_Inr [of "if s_state _ \<noteq> p_state params then _ else _"]
    by auto
  from reconcile_completed [OF run] st0 have c: "c = would_change st0 params"
    by auto
  have "resolv_states params (HdfsCheckMode_patched ctx) st0 sa = (Inr True, sa)"
    if differ: "s_state st0 \<noteq> p_state params"
  proof -
    from cond_step_Inr [OF tr] differ obtain x where "resolv_states params ctx st0 sa = (Inr x, q)"
      by blast
    with patched_resolv_states [of params ctx st0 sa] show ?thesis by auto
  qed
  from patched_reconcile [OF st0 this] c show ?thesis by simp
qed

text \<open>
  The constructor of the wrapper raises for every instance, so lines 189 to 216 in check
  mode end there, whatever the parameters and the backend are.
\<close>

lemma HdfsCheckMode_TypeError:
  "HdfsCheckMode inst = Inl (TypeError ''__init__() should return None'')"
  by (simp add: HdfsCheckMode_def HdfsCheckMode_init_def instantiate_def)

lemma run_context_check_mode:
  "run_context params True context s = (Inl (TypeError ''__init__() should return None''), s)"
  by (simp add: run_context_def HdfsCheckMode_TypeError raise_def)

text \<open>
  \<^verbatim>\<open>main\<close> itself stops before that: with the method \<open>command\<close> it raises
  \<^verbatim>\<open>NameError\<close> at line 185, in check mode or not.
\<close>

lemma main_NameError:
  "p_method params = Command \<Longrightarrow>
   main params check_mode s = (Inl (NameError ''HdfsContextCli''), s)"
  by (simp add: main_def andthen_def raise_def)

text \<open>
  Claim C1 at a concrete input: the wrapper applied to a command-line context, and lines
  189 to 216 run with the parameters of the module's first example on a backend where
  the folder does not exist. \<^verbatim>\<open>HdfsCheckMode(context)\<close> raises \<^verbatim>\<open>TypeError\<close>. So in
  check mode the run ends before \<open>stats\<close> is called and reports no flag, the backend
  untouched; without check mode the same lines create the folder and report
  \<open>changed=True\<close>.
\<close>

theorem check_mode_raises:
  "HdfsCheckMode (HdfsContextCli dir_popen ''/bin/hdfs'')
     = Inl (TypeError ''__init__() should return None'') \<and>
   run_context create_folder True (HdfsContextCli dir_popen ''/bin/hdfs'') []
     = (Inl (TypeError ''__init__() should return None''), []) \<and>
   run_context create_folder False (HdfsContextCli dir_popen ''/bin/hdfs'') []
     = (Inr True, [''/tmp/myfolder''])"
  by code_simp

subsection \<open>Two runs in a row\<close>




















text \<open>
  The other two conditions are needed as well. A replication asked for as \<^verbatim>\<open>"03"\<close> is
  compared with \<^verbatim>\<open>str(3)\<close> and differs at every run; an owner named \<^verbatim>\<open>None\<close> equals
  \<^verbatim>\<open>str(None)\<close> of the absent status, so the first run creates the folder without
  \<open>chown\<close> and the second run makes the call.
\<close>

lemma padded_replication_changes_twice:
  "fst (reconcile padded_file fs_context file_fs) = Inr True \<and>
   fst (reconcile padded_file fs_context (snd (reconcile padded_file fs_context file_fs)))
     = Inr True"
  by code_simp

lemma owner_named_None_changes_twice:
  "fst (reconcile none_folder fs_context empty_fs) = Inr True \<and>
   fst (reconcile none_folder fs_context (snd (reconcile none_folder fs_context empty_fs)))
     = Inr True"
  by code_simp

section \<open>Properties of the evaluation of HdfsUtils.py\<close>

text \<open>
  Claim C9. Evaluating the file raises \<^verbatim>\<open>NotImplementedError\<close>: the body of
  \<^verbatim>\<open>class HdfsContextLib\<close> is a \<^verbatim>\<open>raise\<close> statement, which runs when the class
  statement is evaluated. So an import of the file never yields a namespace, and no name
  of the file (\<^verbatim>\<open>HdfsContextCli\<close> and \<^verbatim>\<open>HdfsCheckMode\<close> among them) can be
  imported from it.
\<close>

theorem import_raises_NotImplementedError:
  "import_module HdfsUtils_py = Inl NotImplementedError \<and>
   (\<forall>name. from_import HdfsUtils_py name = Inl NotImplementedError)"
  by (simp add: from_import_def import_module_def HdfsUtils_py_def)

end
